theory Spec2Isabelle
  imports Main "HOL-Library.Product_Lexorder"
begin

section \<open>Python strings\<close>

text \<open>
  A Python \<open>str\<close> is a sequence of Unicode code points; a code point is a natural number.
  \<open>ascii\<close> turns an ASCII literal into such a sequence.
\<close>

type_synonym str = "nat list"

definition ascii :: "string \<Rightarrow> str" where
  "ascii cs = map of_char cs"

definition comma :: nat where
  "comma = 44"

definition dquote :: nat where
  "dquote = 34"

text \<open>
  \<open>s.split(d)\<close> for a one-character separator: never empty, \<open>''.split(',') == ['']\<close>.
  A character that is not the separator joins the first token of the rest (the rest is
  never the empty list, so the first branch of the \<open>case\<close> is never taken).
\<close>

fun split :: "nat \<Rightarrow> str \<Rightarrow> str list" where
  "split d [] = [[]]"
| "split d (c # cs) =
     (if c = d then [] # split d cs
      else (case split d cs of [] \<Rightarrow> [[c]] | t # ts \<Rightarrow> (c # t) # ts))"

text \<open>\<open>s.strip(chars)\<close>: drops every leading and trailing character that is in \<open>chars\<close>.\<close>

definition strip :: "nat set \<Rightarrow> str \<Rightarrow> str" where
  "strip chars s = rev (dropWhile (\<lambda>c. c \<in> chars) (rev (dropWhile (\<lambda>c. c \<in> chars) s)))"

text \<open>
  The code points for which \<open>str.isspace\<close> holds; \<open>s.strip()\<close> without argument strips
  these.
\<close>

definition whitespace :: "nat set" where
  "whitespace = {9, 10, 11, 12, 13, 28, 29, 30, 31, 32, 133, 160, 5760,
     8192, 8193, 8194, 8195, 8196, 8197, 8198, 8199, 8200, 8201, 8202,
     8232, 8233, 8239, 8287, 12288}"

text \<open>\<open>sep.join(xs)\<close> for a one-character separator.\<close>

fun join :: "nat \<Rightarrow> str list \<Rightarrow> str" where
  "join d [] = []"
| "join d [x] = x"
| "join d (x # y # ys) = x @ d # join d (y # ys)"

section \<open>Exceptions\<close>

text \<open>
  The exception classes the importer can meet. \<open>UnicodeDecodeError\<close> is a subclass of
  \<open>ValueError\<close>; \<open>except ValueError\<close> catches both.
\<close>

datatype exception =
    OSError | LookupError | ValueError | UnicodeDecodeError | TypeError | KeyError
  | AssertionError | InvalidFormatError | re_error | InvalidOperation | csv_Error

fun is_ValueError :: "exception \<Rightarrow> bool" where
  "is_ValueError ValueError = True"
| "is_ValueError UnicodeDecodeError = True"
| "is_ValueError _ = False"

section \<open>The language schema table\<close>

record field =
  label :: str
  optional :: bool

definition fld :: "str \<Rightarrow> bool \<Rightarrow> field" where
  "fld l opt = \<lparr>label = l, optional = opt\<rparr>"

text \<open>One ordered dictionary per language: keys in insertion order.\<close>

definition fields_en :: "(str \<times> field) list" where
  "fields_en =
    [(ascii ''date'', fld (ascii ''Date'') False),
     (ascii ''payee'', fld (ascii ''Payee'') False),
     (ascii ''account_number'', fld (ascii ''Account number'') False),
     (ascii ''transaction_type'', fld (ascii ''Transaction type'') False),
     (ascii ''payment_reference'', fld (ascii ''Payment reference'') False),
     (ascii ''category'', fld (ascii ''Category'') True),
     (ascii ''amount_eur'', fld (ascii ''Amount (EUR)'') False),
     (ascii ''amount_foreign_currency'', fld (ascii ''Amount (Foreign Currency)'') False),
     (ascii ''type_foreign_currency'', fld (ascii ''Type Foreign Currency'') False),
     (ascii ''exchange_rate'', fld (ascii ''Exchange Rate'') False)]"

text \<open>
  The German and French labels hold letters outside ASCII, written here by code point:
  228 is a-umlaut, 233 e-acute, 232 e-grave.
\<close>

definition fields_de :: "(str \<times> field) list" where
  "fields_de =
    [(ascii ''date'', fld (ascii ''Datum'') False),
     (ascii ''payee'', fld (ascii ''Empf'' @ [228] @ ascii ''nger'') False),
     (ascii ''account_number'', fld (ascii ''Kontonummer'') False),
     (ascii ''transaction_type'', fld (ascii ''Transaktionstyp'') False),
     (ascii ''payment_reference'', fld (ascii ''Verwendungszweck'') False),
     (ascii ''category'', fld (ascii ''Kategorie'') True),
     (ascii ''amount_eur'', fld (ascii ''Betrag (EUR)'') False),
     (ascii ''amount_foreign_currency'',
        fld (ascii ''Betrag (Fremdw'' @ [228] @ ascii ''hrung)'') False),
     (ascii ''type_foreign_currency'', fld (ascii ''Fremdw'' @ [228] @ ascii ''hrung'') False),
     (ascii ''exchange_rate'', fld (ascii ''Wechselkurs'') False)]"

definition fields_fr :: "(str \<times> field) list" where
  "fields_fr =
    [(ascii ''date'', fld (ascii ''Date'') False),
     (ascii ''payee'', fld (ascii ''B'' @ [233] @ ascii ''n'' @ [233] @ ascii ''ficiaire'') False),
     (ascii ''account_number'', fld (ascii ''Num'' @ [233] @ ascii ''ro de compte'') False),
     (ascii ''transaction_type'', fld (ascii ''Type de transaction'') False),
     (ascii ''payment_reference'',
        fld (ascii ''R'' @ [233] @ ascii ''f'' @ [233] @ ascii ''rence de paiement'') False),
     (ascii ''category'', fld (ascii ''Cat'' @ [233] @ ascii ''gorie'') True),
     (ascii ''amount_eur'', fld (ascii ''Montant (EUR)'') False),
     (ascii ''amount_foreign_currency'',
        fld (ascii ''Montant (Devise '' @ [233] @ ascii ''trang'' @ [232] @ ascii ''re)'') False),
     (ascii ''type_foreign_currency'',
        fld (ascii ''S'' @ [233] @ ascii ''lectionnez la devise '' @ [233] @ ascii ''trang''
             @ [232] @ ascii ''re'') False),
     (ascii ''exchange_rate'', fld (ascii ''Taux de conversion'') False)]"

definition HEADER_FIELDS :: "str \<Rightarrow> (str \<times> field) list option" where
  "HEADER_FIELDS language =
     (if language = ascii ''en'' then Some fields_en
      else if language = ascii ''de'' then Some fields_de
      else if language = ascii ''fr'' then Some fields_fr
      else None)"

definition is_language_supported :: "str \<Rightarrow> bool" where
  "is_language_supported language = (HEADER_FIELDS language \<noteq> None)"

text \<open>\<open>HEADER_FIELDS[language]\<close> raises \<open>KeyError\<close> for a language that is not a key.\<close>

definition translation_strings_for :: "str \<Rightarrow> exception + (str \<times> str) list" where
  "translation_strings_for language =
     (case HEADER_FIELDS language of
        None \<Rightarrow> Inl KeyError
      | Some fs \<Rightarrow> Inr (map (\<lambda>(k, v). (k, label v)) fs))"

text \<open>
  \<open>del headers[k]\<close> for every key whose field is optional, then the values in order.
  The keys of a schema are distinct, so deleting by key is filtering by key.
\<close>

definition header_values_for :: "str \<Rightarrow> bool \<Rightarrow> exception + str list" where
  "header_values_for language include_optional =
     (case translation_strings_for language of
        Inl e \<Rightarrow> Inl e
      | Inr headers \<Rightarrow>
          (if \<not> include_optional then
             (case HEADER_FIELDS language of
                None \<Rightarrow> Inl KeyError
              | Some fs \<Rightarrow>
                  Inr (map snd
                    (fold (\<lambda>(k, v) hs. if optional v then filter (\<lambda>(k', l). k' \<noteq> k) hs else hs)
                       fs headers)))
           else Inr (map snd headers)))"

section \<open>The header matcher\<close>

text \<open>
  \<open>is_valid_header\<close> reads only \<open>self.language\<close>. The loop over \<open>zip(expected, actual)\<close>
  returns False at the first differing pair.
\<close>

fun zip_all_equal :: "(str \<times> str) list \<Rightarrow> bool" where
  "zip_all_equal [] = True"
| "zip_all_equal ((expected, actual) # rest) =
     (if expected \<noteq> actual then False else zip_all_equal rest)"

definition is_valid_header :: "str \<Rightarrow> str \<Rightarrow> exception + bool" where
  "is_valid_header language line =
     (case header_values_for language True of
        Inl e \<Rightarrow> Inl e
      | Inr expected_values \<Rightarrow>
          (let actual_values = map (strip {dquote}) (split comma line) in
           if length expected_values \<noteq> length actual_values then
             (case header_values_for language False of
                Inl e \<Rightarrow> Inl e
              | Inr expected_values' \<Rightarrow>
                  if length expected_values' \<noteq> length actual_values then Inr False
                  else Inr (zip_all_equal (zip expected_values' actual_values)))
           else Inr (zip_all_equal (zip expected_values actual_values))))"

section \<open>Files, rows and the standard library\<close>

text \<open>
  What a text file delivers when it is read line by line: the lines decoded so far, then
  either the end of the file or an exception (a decoding failure, a read error) at the
  next read.
\<close>

record text_stream =
  delivered :: "str list"
  failure :: "exception option"

text \<open>The importer reads only \<open>file_.name\<close> of the file object it is given.\<close>

record file_memo =
  name :: str

text \<open>
  A value stored in a row dictionary of \<open>csv.DictReader\<close>: a string, \<open>None\<close> (the
  \<open>restval\<close> of a short row) or the list of surplus fields (stored under the key \<open>None\<close>).
\<close>

datatype pyval = Str str | PyNone | PyList "str list"

type_synonym row_dict = "str option \<Rightarrow> pyval option"

text \<open>A calendar date (year, month, day); dates compare lexicographically.\<close>

type_synonym date = "nat \<times> nat \<times> nat"

record 'rx PayeePattern =
  regex :: 'rx
  pattern_account :: str

text \<open>
  The collaborators outside the repository, as parameters of every operation:
  \<^item> \<open>open_text name encoding\<close>: \<open>open(name, encoding=encoding)\<close> raises, or gives a stream;
  \<^item> \<open>csv_reader\<close>: the rows \<open>csv.reader(fd, delimiter=',', quoting=QUOTE_MINIMAL,
    quotechar='"')\<close> yields, then the exception that ends the iteration, if any;
  \<^item> \<open>re_compile\<close>: \<open>re.compile(pattern, flags=re.IGNORECASE)\<close>;
  \<^item> \<open>re_match r s\<close>: whether \<open>r.match(s)\<close> is a match object (a match of the pattern at
    the beginning of \<open>s\<close>) rather than \<open>None\<close>;
  \<^item> \<open>Decimal\<close>: the constructor \<open>Decimal(s)\<close> on a string;
  \<^item> \<open>strptime\<close>: \<open>datetime.strptime(s, '%Y-%m-%d').date()\<close>;
  \<^item> \<open>set_iter\<close>: the order in which this run iterates over a \<open>set\<close> (it depends on the
    elements' hashes, and string hashes are salted per process).
\<close>

record ('rx, 'dec) env =
  open_text :: "str \<Rightarrow> str \<Rightarrow> exception + text_stream"
  csv_reader :: "text_stream \<Rightarrow> str list list \<times> exception option"
  re_compile :: "str \<Rightarrow> exception + 'rx"
  re_match :: "'rx \<Rightarrow> str \<Rightarrow> bool"
  Decimal :: "str \<Rightarrow> exception + 'dec"
  strptime :: "str \<Rightarrow> exception + date"
  set_iter :: "'rx PayeePattern set \<Rightarrow> 'rx PayeePattern list"

text \<open>\<open>fd.readline()\<close> on a freshly opened stream: the first line, or \<open>''\<close> at the end.\<close>

definition readline :: "text_stream \<Rightarrow> exception + str" where
  "readline fd =
     (case delivered fd of
        [] \<Rightarrow> (case failure fd of None \<Rightarrow> Inr [] | Some e \<Rightarrow> Inl e)
      | l # _ \<Rightarrow> Inr l)"

text \<open>
  \<open>csv.DictReader\<close>: one row becomes \<open>dict(zip(fieldnames, row))\<close>, a long row stores its
  surplus under the key \<open>None\<close>, a short row gets \<open>None\<close> for the missing keys.
\<close>

definition DictReader_row :: "str list \<Rightarrow> str list \<Rightarrow> row_dict" where
  "DictReader_row fieldnames row =
     (let d = fold (\<lambda>(k, v) m. m(Some k \<mapsto> Str v)) (zip fieldnames row) Map.empty;
          lf = length fieldnames;
          lr = length row
      in if lf < lr then d(None \<mapsto> PyList (drop lf row))
         else if lf > lr then fold (\<lambda>k m. m(Some k \<mapsto> PyNone)) (drop lr fieldnames) d
         else d)"

text \<open>
  The first row of the reader is the field names, whatever it holds; of the rows after
  it the empty ones are skipped.
\<close>

definition DictReader :: "str list list \<times> exception option \<Rightarrow> row_dict list \<times> exception option" where
  "DictReader rs =
     (case fst rs of
        [] \<Rightarrow> ([], snd rs)
      | fieldnames # rest \<Rightarrow>
          (map (DictReader_row fieldnames) (filter (\<lambda>row. row \<noteq> []) rest), snd rs))"

text \<open>\<open>d[k]\<close> for a string key.\<close>

definition getitem :: "row_dict \<Rightarrow> str \<Rightarrow> exception + pyval" where
  "getitem d k = (case d (Some k) of None \<Rightarrow> Inl KeyError | Some v \<Rightarrow> Inr v)"

section \<open>The importer\<close>

record 'rx N26Importer =
  iban :: str
  account :: str
  language :: str
  file_encoding :: str
  payee_patterns :: "'rx PayeePattern set"
  translation_strings :: "(str \<times> str) list"

text \<open>
  The constructor's loops: over the patterns of one account, and over the items of
  \<open>account_patterns\<close> (a dictionary, in insertion order). The state is \<open>seen_patterns\<close> and
  \<open>self.payee_patterns\<close>. The \<open>assert\<close> is checked (Python without \<open>-O\<close>).
\<close>

fun add_patterns ::
  "('rx, 'dec) env \<Rightarrow> str \<Rightarrow> str list \<Rightarrow> str set \<times> 'rx PayeePattern set
   \<Rightarrow> exception + str set \<times> 'rx PayeePattern set" where
  "add_patterns E acc [] st = Inr st"
| "add_patterns E acc (pattern # patterns) (seen_patterns, pps) =
     (if pattern \<in> seen_patterns then Inl AssertionError
      else (case re_compile E pattern of
              Inl e \<Rightarrow> Inl e
            | Inr r \<Rightarrow>
                add_patterns E acc patterns
                  (insert pattern seen_patterns,
                   insert \<lparr>regex = r, pattern_account = acc\<rparr> pps)))"

fun add_accounts ::
  "('rx, 'dec) env \<Rightarrow> (str \<times> str list) list \<Rightarrow> str set \<times> 'rx PayeePattern set
   \<Rightarrow> exception + str set \<times> 'rx PayeePattern set" where
  "add_accounts E [] st = Inr st"
| "add_accounts E ((acc, patterns) # items) st =
     (case add_patterns E acc patterns st of
        Inl e \<Rightarrow> Inl e
      | Inr st' \<Rightarrow> add_accounts E items st')"

definition init ::
  "('rx, 'dec) env \<Rightarrow> str \<Rightarrow> str \<Rightarrow> str \<Rightarrow> str \<Rightarrow> (str \<times> str list) list
   \<Rightarrow> exception + 'rx N26Importer" where
  "init E iban' account' language' file_encoding' account_patterns =
     (if \<not> is_language_supported language' then Inl InvalidFormatError
      else (case translation_strings_for language' of
              Inl e \<Rightarrow> Inl e
            | Inr ts \<Rightarrow>
                (case add_accounts E account_patterns ({}, {}) of
                   Inl e \<Rightarrow> Inl e
                 | Inr st \<Rightarrow>
                     Inr \<lparr>iban = iban', account = account', language = language',
                          file_encoding = file_encoding', payee_patterns = snd st,
                          translation_strings = ts\<rparr>)))"

definition translate :: "'rx N26Importer \<Rightarrow> str \<Rightarrow> exception + str" where
  "translate self key =
     (case map_of (translation_strings self) key of
        None \<Rightarrow> Inl KeyError
      | Some l \<Rightarrow> Inr l)"

text \<open>\<open>strptime\<close> and \<open>Decimal\<close> raise \<open>TypeError\<close> on \<open>None\<close>.\<close>

definition parse_date ::
  "('rx, 'dec) env \<Rightarrow> 'rx N26Importer \<Rightarrow> row_dict \<Rightarrow> str \<Rightarrow> exception + date" where
  "parse_date E self entry key =
     (case translate self key of
        Inl e \<Rightarrow> Inl e
      | Inr k \<Rightarrow>
          (case getitem entry k of
             Inl e \<Rightarrow> Inl e
           | Inr (Str s) \<Rightarrow> strptime E s
           | Inr _ \<Rightarrow> Inl TypeError))"

text \<open>
  \<open>identify\<close>: \<open>open\<close> and \<open>readline\<close> are inside the \<open>try\<close>, whose only handler is
  \<open>except ValueError\<close>; the header check is in the \<open>else\<close> branch.
\<close>

definition identify ::
  "('rx, 'dec) env \<Rightarrow> 'rx N26Importer \<Rightarrow> file_memo \<Rightarrow> exception + bool" where
  "identify E self file =
     (case (case open_text E (name file) (file_encoding self) of
              Inl e \<Rightarrow> Inl e
            | Inr fd \<Rightarrow>
                (case readline fd of
                   Inl e \<Rightarrow> Inl e
                 | Inr l \<Rightarrow> Inr (strip whitespace l))) of
        Inl e \<Rightarrow> if is_ValueError e then Inr False else Inl e
      | Inr line \<Rightarrow> is_valid_header (language self) line)"

text \<open>The loop of \<open>file_date\<close>; a \<open>date\<close> object is always truthy, so \<open>not date\<close> is \<open>date is None\<close>.\<close>

fun file_date_loop ::
  "('rx, 'dec) env \<Rightarrow> 'rx N26Importer \<Rightarrow> row_dict list \<Rightarrow> date option
   \<Rightarrow> exception + date option" where
  "file_date_loop E self [] d = Inr d"
| "file_date_loop E self (line # rest) d =
     (case parse_date E self line (ascii ''date'') of
        Inl e \<Rightarrow> Inl e
      | Inr date_tmp \<Rightarrow>
          file_date_loop E self rest
            (case d of
               None \<Rightarrow> Some date_tmp
             | Some d' \<Rightarrow> if date_tmp > d' then Some date_tmp else Some d'))"

definition file_date ::
  "('rx, 'dec) env \<Rightarrow> 'rx N26Importer \<Rightarrow> file_memo \<Rightarrow> exception + date option" where
  "file_date E self file =
     (case identify E self file of
        Inl e \<Rightarrow> Inl e
      | Inr ok \<Rightarrow>
          if \<not> ok then Inr None
          else (case open_text E (name file) (file_encoding self) of
                  Inl e \<Rightarrow> Inl e
                | Inr fd \<Rightarrow>
                    (let reader = DictReader (csv_reader E fd) in
                     case file_date_loop E self (fst reader) None of
                       Inl e \<Rightarrow> Inl e
                     | Inr d \<Rightarrow> (case snd reader of Some e \<Rightarrow> Inl e | None \<Rightarrow> Inr d))))"

section \<open>Transactions\<close>

record 'dec Posting =
  posting_account :: str
  units :: "('dec \<times> str) option"
  cost :: "unit option"
  price :: "unit option"
  posting_flag :: "unit option"
  posting_meta :: "unit option"

record metadata =
  filename :: str
  lineno :: nat

record 'dec Transaction =
  meta :: metadata
  txn_date :: date
  flag :: str
  payee :: pyval
  narration :: pyval
  tags :: "str set"
  links :: "str set"
  postings :: "'dec Posting list"

text \<open>\<open>ImporterProtocol.FLAG\<close>, the flag of a transaction that is complete.\<close>

definition FLAG :: str where
  "FLAG = ascii ''*''"

text \<open>
  The loop over \<open>self.payee_patterns\<close> (the payee classifier of the specification), in the
  order the set is iterated: every matching pattern overwrites \<open>match\<close>.
  \<open>line[s_payee]\<close> is evaluated at each turn.
\<close>

fun classify ::
  "('rx, 'dec) env \<Rightarrow> row_dict \<Rightarrow> str \<Rightarrow> 'rx PayeePattern list \<Rightarrow> str option
   \<Rightarrow> exception + str option" where
  "classify E line s_payee [] match = Inr match"
| "classify E line s_payee (pattern # rest) match =
     (case getitem line s_payee of
        Inl e \<Rightarrow> Inl e
      | Inr (Str s) \<Rightarrow>
          classify E line s_payee rest
            (if re_match E (regex pattern) s then Some (pattern_account pattern) else match)
      | Inr _ \<Rightarrow> Inl TypeError)"

text \<open>\<open>if match:\<close> holds for a string that is not empty.\<close>

definition truthy :: "str option \<Rightarrow> bool" where
  "truthy match = (case match of None \<Rightarrow> False | Some a \<Rightarrow> a \<noteq> [])"

definition extract_row ::
  "('rx, 'dec) env \<Rightarrow> 'rx N26Importer \<Rightarrow> file_memo \<Rightarrow> str \<Rightarrow> str \<Rightarrow> str \<Rightarrow> nat \<Rightarrow> row_dict
   \<Rightarrow> exception + 'dec Transaction" where
  "extract_row E self file s_amount_eur s_payee s_payment_reference index line =
     (case (case getitem line s_amount_eur of
              Inl e \<Rightarrow> Inl e
            | Inr (Str s) \<Rightarrow> Decimal E s
            | Inr _ \<Rightarrow> Inl TypeError) of
        Inl e \<Rightarrow> Inl e
      | Inr amount \<Rightarrow>
          (case classify E line s_payee (set_iter E (payee_patterns self)) None of
             Inl e \<Rightarrow> Inl e
           | Inr match \<Rightarrow>
               (case parse_date E self line (ascii ''date'') of
                  Inl e \<Rightarrow> Inl e
                | Inr d \<Rightarrow>
                    (case getitem line s_payee of
                       Inl e \<Rightarrow> Inl e
                     | Inr p \<Rightarrow>
                         (case getitem line s_payment_reference of
                            Inl e \<Rightarrow> Inl e
                          | Inr n \<Rightarrow>
                              Inr \<lparr>meta = \<lparr>filename = name file, lineno = index\<rparr>,
                                   txn_date = d, flag = FLAG, payee = p, narration = n,
                                   tags = {}, links = {},
                                   postings =
                                     [\<lparr>posting_account = account self,
                                       units = Some (amount, ascii ''EUR''),
                                       cost = None, price = None,
                                       posting_flag = None, posting_meta = None\<rparr>]
                                     @ (if truthy match then
                                          [\<lparr>posting_account = the match, units = None,
                                            cost = None, price = None,
                                            posting_flag = None, posting_meta = None\<rparr>]
                                        else [])\<rparr>)))))"

text \<open>The loop over \<open>enumerate(reader)\<close>; the first exception ends it.\<close>

fun extract_loop ::
  "('rx, 'dec) env \<Rightarrow> 'rx N26Importer \<Rightarrow> file_memo \<Rightarrow> str \<Rightarrow> str \<Rightarrow> str \<Rightarrow> nat
   \<Rightarrow> row_dict list \<Rightarrow> exception + 'dec Transaction list" where
  "extract_loop E self file sa sp sr index [] = Inr []"
| "extract_loop E self file sa sp sr index (line # rest) =
     (case extract_row E self file sa sp sr index line of
        Inl e \<Rightarrow> Inl e
      | Inr t \<Rightarrow>
          (case extract_loop E self file sa sp sr (Suc index) rest of
             Inl e \<Rightarrow> Inl e
           | Inr ts \<Rightarrow> Inr (t # ts)))"

definition "extract" ::
  "('rx, 'dec) env \<Rightarrow> 'rx N26Importer \<Rightarrow> file_memo \<Rightarrow> exception + 'dec Transaction list" where
  "extract E self file =
     (case identify E self file of
        Inl e \<Rightarrow> Inl e
      | Inr ok \<Rightarrow>
          if \<not> ok then Inr []
          else (case translate self (ascii ''amount_eur'') of
            Inl e \<Rightarrow> Inl e
          | Inr s_amount_eur \<Rightarrow>
          (case translate self (ascii ''payee'') of
            Inl e \<Rightarrow> Inl e
          | Inr s_payee \<Rightarrow>
          (case translate self (ascii ''payment_reference'') of
            Inl e \<Rightarrow> Inl e
          | Inr s_payment_reference \<Rightarrow>
          (case open_text E (name file) (file_encoding self) of
            Inl e \<Rightarrow> Inl e
          | Inr fd \<Rightarrow>
              (let reader = DictReader (csv_reader E fd) in
               case extract_loop E self file s_amount_eur s_payee s_payment_reference 0
                      (fst reader) of
                 Inl e \<Rightarrow> Inl e
               | Inr entries \<Rightarrow>
                   (case snd reader of Some e \<Rightarrow> Inl e | None \<Rightarrow> Inr entries)))))))"

section \<open>A reference standard library\<close>

text \<open>
  Executable models of the library calls, used where a statement needs a concrete run.
  They follow CPython on ASCII input; the theorems that quantify over the environment do
  not depend on them.
\<close>

subsection \<open>The csv reader\<close>

text \<open>
  The state machine of the \<open>_csv\<close> reader for the dialect the importer asks for:
  delimiter \<open>,\<close>, quote character \<open>"\<close>, doubled quotes, no escape character, not strict.
  A character is \<open>Some c\<close>; \<open>None\<close> is the end-of-line mark fed after every line.
\<close>

datatype parser_state =
  START_RECORD | START_FIELD | IN_FIELD | IN_QUOTED_FIELD | QUOTE_IN_QUOTED_FIELD | EAT_CRNL

type_synonym parser = "parser_state \<times> str \<times> str list"

definition field_limit :: nat where
  "field_limit = 131072"

definition is_newline :: "nat option \<Rightarrow> bool" where
  "is_newline c = (c = Some 10 \<or> c = Some 13 \<or> c = None)"

definition after_newline :: "nat option \<Rightarrow> parser_state" where
  "after_newline c = (if c = None then START_RECORD else EAT_CRNL)"

definition add_char :: "parser_state \<Rightarrow> str \<Rightarrow> str list \<Rightarrow> nat \<Rightarrow> exception + parser" where
  "add_char st cur row c =
     (if length cur \<ge> field_limit then Inl csv_Error else Inr (st, cur @ [c], row))"

text \<open>The case \<open>START_FIELD\<close>, which \<open>START_RECORD\<close> falls through to.\<close>

definition start_field :: "str \<Rightarrow> str list \<Rightarrow> nat option \<Rightarrow> exception + parser" where
  "start_field cur row c =
     (if is_newline c then Inr (after_newline c, [], row @ [cur])
      else if c = Some dquote then Inr (IN_QUOTED_FIELD, cur, row)
      else if c = Some comma then Inr (START_FIELD, [], row @ [cur])
      else add_char IN_FIELD cur row (the c))"

fun parse_process_char :: "parser \<Rightarrow> nat option \<Rightarrow> exception + parser" where
  "parse_process_char (START_RECORD, cur, row) c =
     (if c = None then Inr (START_RECORD, cur, row)
      else if is_newline c then Inr (EAT_CRNL, cur, row)
      else start_field cur row c)"
| "parse_process_char (START_FIELD, cur, row) c = start_field cur row c"
| "parse_process_char (IN_FIELD, cur, row) c =
     (if is_newline c then Inr (after_newline c, [], row @ [cur])
      else if c = Some comma then Inr (START_FIELD, [], row @ [cur])
      else add_char IN_FIELD cur row (the c))"
| "parse_process_char (IN_QUOTED_FIELD, cur, row) c =
     (if c = None then Inr (IN_QUOTED_FIELD, cur, row)
      else if c = Some dquote then Inr (QUOTE_IN_QUOTED_FIELD, cur, row)
      else add_char IN_QUOTED_FIELD cur row (the c))"
| "parse_process_char (QUOTE_IN_QUOTED_FIELD, cur, row) c =
     (if c = Some dquote then add_char IN_QUOTED_FIELD cur row dquote
      else if c = Some comma then Inr (START_FIELD, [], row @ [cur])
      else if is_newline c then Inr (after_newline c, [], row @ [cur])
      else add_char IN_FIELD cur row (the c))"
| "parse_process_char (EAT_CRNL, cur, row) c =
     (if c = Some 10 \<or> c = Some 13 then Inr (EAT_CRNL, cur, row)
      else if c = None then Inr (START_RECORD, cur, row)
      else Inl csv_Error)"

fun feed :: "parser \<Rightarrow> nat option list \<Rightarrow> exception + parser" where
  "feed p [] = Inr p"
| "feed p (c # cs) =
     (case parse_process_char p c of Inl e \<Rightarrow> Inl e | Inr p' \<Rightarrow> feed p' cs)"

text \<open>
  One call of the reader's \<open>__next__\<close> consumes lines until the state is \<open>START_RECORD\<close>
  again; at the end of the input a pending field closes the last row.
\<close>

fun reader_rows :: "str list \<Rightarrow> exception option \<Rightarrow> parser \<Rightarrow> str list list \<times> exception option" where
  "reader_rows [] fail (st, cur, row) =
     (case fail of
        Some e \<Rightarrow> ([], Some e)
      | None \<Rightarrow>
          if cur \<noteq> [] \<or> st = IN_QUOTED_FIELD then ([row @ [cur]], None) else ([], None))"
| "reader_rows (l # ls) fail p =
     (case feed p (map Some l @ [None]) of
        Inl e \<Rightarrow> ([], Some e)
      | Inr (st, cur, row) \<Rightarrow>
          if st = START_RECORD then
            (case reader_rows ls fail (START_RECORD, [], []) of
               (rows, err) \<Rightarrow> (row # rows, err))
          else reader_rows ls fail (st, cur, row))"

definition ref_csv_reader :: "text_stream \<Rightarrow> str list list \<times> exception option" where
  "ref_csv_reader fd = reader_rows (delivered fd) (failure fd) (START_RECORD, [], [])"

subsection \<open>Dates\<close>

definition digit :: "nat \<Rightarrow> bool" where
  "digit c = (48 \<le> c \<and> c \<le> 57)"

definition nonzero_digit :: "nat \<Rightarrow> bool" where
  "nonzero_digit c = (49 \<le> c \<and> c \<le> 57)"

definition nat_of_digits :: "str \<Rightarrow> nat" where
  "nat_of_digits ds = foldl (\<lambda>n c. 10 * n + (c - 48)) 0 ds"

text \<open>
  \<open>strptime\<close> turns \<open>%Y-%m-%d\<close> into the regular expression
  \<open>(\d\d\d\d)-(1[0-2]|0[1-9]|[1-9])-(3[0-1]|[1-2]\d|0[1-9]|[1-9]| [1-9])\<close>, matches it at
  the start of the string, and raises \<open>ValueError\<close> when it does not match, when text
  remains after the match, or when the day does not exist.
  \<open>match_day\<close> is the last group: the first alternative that matches, and the rest.
\<close>

definition match_day :: "str \<Rightarrow> (nat \<times> str) option" where
  "match_day s =
     (case s of
        [] \<Rightarrow> None
      | [c1] \<Rightarrow> if nonzero_digit c1 then Some (c1 - 48, []) else None
      | c1 # c2 # rest \<Rightarrow>
          if c1 = 51 \<and> (c2 = 48 \<or> c2 = 49) then Some (30 + (c2 - 48), rest)
          else if (c1 = 49 \<or> c1 = 50) \<and> digit c2 then Some (10 * (c1 - 48) + (c2 - 48), rest)
          else if c1 = 48 \<and> nonzero_digit c2 then Some (c2 - 48, rest)
          else if nonzero_digit c1 then Some (c1 - 48, c2 # rest)
          else if c1 = 32 \<and> nonzero_digit c2 then Some (c2 - 48, rest)
          else None)"

text \<open>What follows the month: the hyphen and the day.\<close>

definition after_month :: "nat \<Rightarrow> str \<Rightarrow> (nat \<times> nat \<times> str) option" where
  "after_month m s =
     (case s of
        [] \<Rightarrow> None
      | c # rest \<Rightarrow>
          if c = 45 then (case match_day rest of None \<Rightarrow> None | Some (d, r) \<Rightarrow> Some (m, d, r))
          else None)"

text \<open>
  The three alternatives of the month, in order; a later one is tried when the rest of
  the pattern fails after an earlier one.
\<close>

definition match_month_day :: "str \<Rightarrow> (nat \<times> nat \<times> str) option" where
  "match_month_day s =
     (case (case s of
              c1 # c2 # rest \<Rightarrow>
                if c1 = 49 \<and> 48 \<le> c2 \<and> c2 \<le> 50 then after_month (10 + (c2 - 48)) rest else None
            | _ \<Rightarrow> None) of
        Some r \<Rightarrow> Some r
      | None \<Rightarrow>
          (case (case s of
                   c1 # c2 # rest \<Rightarrow>
                     if c1 = 48 \<and> nonzero_digit c2 then after_month (c2 - 48) rest else None
                 | _ \<Rightarrow> None) of
             Some r \<Rightarrow> Some r
           | None \<Rightarrow>
               (case s of
                  [] \<Rightarrow> None
                | c1 # rest \<Rightarrow> if nonzero_digit c1 then after_month (c1 - 48) rest else None)))"

definition leap_year :: "nat \<Rightarrow> bool" where
  "leap_year y = (y mod 4 = 0 \<and> (y mod 100 \<noteq> 0 \<or> y mod 400 = 0))"

definition days_in_month :: "nat \<Rightarrow> nat \<Rightarrow> nat" where
  "days_in_month y m =
     (if m = 2 then (if leap_year y then 29 else 28)
      else if m = 4 \<or> m = 6 \<or> m = 9 \<or> m = 11 then 30 else 31)"

definition ref_strptime :: "str \<Rightarrow> exception + date" where
  "ref_strptime s =
     (if length s \<ge> 5 \<and> list_all digit (take 4 s) \<and> s ! 4 = 45 then
        (case match_month_day (drop 5 s) of
           None \<Rightarrow> Inl ValueError
         | Some (m, d, rest) \<Rightarrow>
             if rest \<noteq> [] then Inl ValueError
             else (let y = nat_of_digits (take 4 s) in
                   if 1 \<le> y \<and> d \<le> days_in_month y m then Inr (y, m, d)
                   else Inl ValueError))
      else Inl ValueError)"

subsection \<open>Decimal numbers\<close>

text \<open>
  A \<open>Decimal\<close> as its constructor stores it: sign, coefficient and exponent, or an
  infinity, or a (quiet or signalling) NaN with its payload.
\<close>

datatype decimal = Finite bool nat int | Infinite bool | NaN bool bool nat

definition lower :: "nat \<Rightarrow> nat" where
  "lower c = (if 65 \<le> c \<and> c \<le> 90 then c + 32 else c)"

text \<open>The text after the coefficient: nothing, or \<open>E\<close>, an optional sign and digits.\<close>

definition parse_exponent :: "str \<Rightarrow> int option" where
  "parse_exponent s =
     (case s of
        [] \<Rightarrow> Some 0
      | c # r \<Rightarrow>
          if lower c = 101 then
            (let neg = (r \<noteq> [] \<and> hd r = 45);
                 ds = (if r \<noteq> [] \<and> (hd r = 45 \<or> hd r = 43) then tl r else r)
             in if ds \<noteq> [] \<and> list_all digit ds
                then Some ((if neg then - 1 else 1) * int (nat_of_digits ds))
                else None)
          else None)"

definition parse_number :: "bool \<Rightarrow> str \<Rightarrow> decimal option" where
  "parse_number sign s =
     (let i = takeWhile digit s;
          r1 = dropWhile digit s;
          dot = (r1 \<noteq> [] \<and> hd r1 = 46);
          f = (if dot then takeWhile digit (tl r1) else []);
          r2 = (if dot then dropWhile digit (tl r1) else r1)
      in if i @ f = [] then None
         else (case parse_exponent r2 of
                 None \<Rightarrow> None
               | Some e \<Rightarrow> Some (Finite sign (nat_of_digits (i @ f)) (e - int (length f)))))"

definition parse_special :: "bool \<Rightarrow> str \<Rightarrow> decimal option" where
  "parse_special sign s =
     (let l = map lower s in
      if l = ascii ''inf'' \<or> l = ascii ''infinity'' then Some (Infinite sign)
      else if take 3 l = ascii ''nan'' \<and> list_all digit (drop 3 l)
        then Some (NaN sign False (nat_of_digits (drop 3 l)))
      else if take 4 l = ascii ''snan'' \<and> list_all digit (drop 4 l)
        then Some (NaN sign True (nat_of_digits (drop 4 l)))
      else None)"

text \<open>
  \<open>Decimal(s)\<close>: surrounding whitespace and underscores are dropped; a string that is not
  a number signals \<open>InvalidOperation\<close>, which the default context raises.
\<close>

definition ref_Decimal :: "str \<Rightarrow> exception + decimal" where
  "ref_Decimal s =
     (let t = filter (\<lambda>c. c \<noteq> 95) (strip whitespace s);
          signed = (t \<noteq> [] \<and> (hd t = 45 \<or> hd t = 43));
          sign = (t \<noteq> [] \<and> hd t = 45);
          body = (if signed then tl t else t)
      in case parse_number sign body of
           Some d \<Rightarrow> Inr d
         | None \<Rightarrow>
             (case parse_special sign body of
                Some d \<Rightarrow> Inr d
              | None \<Rightarrow> Inl InvalidOperation))"

subsection \<open>Regular expressions\<close>

text \<open>
  The fragment of patterns made of an optional \<open>^\<close> and letters, digits and spaces, which
  stand for themselves. Compiled with \<open>IGNORECASE\<close>, such a pattern matches at the start
  of a string when the string begins with these characters in either case. The compiled
  pattern is kept as its lower-case text. Other patterns are outside the fragment; the
  reference compiler refuses them.
\<close>

definition literal_char :: "nat \<Rightarrow> bool" where
  "literal_char c = (digit c \<or> (97 \<le> lower c \<and> lower c \<le> 122) \<or> c = 32)"

definition ref_re_compile :: "str \<Rightarrow> exception + str" where
  "ref_re_compile pattern =
     (let body = (if pattern \<noteq> [] \<and> hd pattern = 94 then tl pattern else pattern) in
      if list_all literal_char body then Inr (map lower body) else Inl re_error)"

definition ref_re_match :: "str \<Rightarrow> str \<Rightarrow> bool" where
  "ref_re_match r s = (take (length r) (map lower s) = r)"

subsection \<open>The reference environment\<close>

text \<open>
  \<open>files\<close> says what opening each file name gives (a missing name is a missing file,
  an \<open>OSError\<close>); \<open>order\<close> lists payee patterns in the order this run's sets iterate.
\<close>

definition ref_env ::
  "(str \<times> (exception + text_stream)) list \<Rightarrow> str PayeePattern list \<Rightarrow> (str, decimal) env" where
  "ref_env files order =
     \<lparr>open_text = (\<lambda>name encoding. case map_of files name of None \<Rightarrow> Inl OSError | Some r \<Rightarrow> r),
      csv_reader = ref_csv_reader,
      re_compile = ref_re_compile,
      re_match = ref_re_match,
      Decimal = ref_Decimal,
      strptime = ref_strptime,
      set_iter = (\<lambda>S. filter (\<lambda>x. x \<in> S) order)\<rparr>"

section \<open>Vocabulary of the statements\<close>

text \<open>A header token: the label, wrapped in double quotes or not.\<close>

definition quoted :: "bool \<Rightarrow> str \<Rightarrow> str" where
  "quoted q l = (if q then dquote # l @ [dquote] else l)"

definition plain_label :: "str \<Rightarrow> bool" where
  "plain_label l = (comma \<notin> set l \<and> dquote \<notin> set l)"

text \<open>
  The text a row holds in the column of a field key: \<open>None\<close> when the key has no label,
  when the row has no such column, or when the row holds \<open>None\<close> there.
\<close>

definition field_text :: "'rx N26Importer \<Rightarrow> row_dict \<Rightarrow> str \<Rightarrow> str option" where
  "field_text self line key =
     (case translate self key of
        Inl e \<Rightarrow> None
      | Inr k \<Rightarrow> (case line (Some k) of Some (Str s) \<Rightarrow> Some s | _ \<Rightarrow> None))"

text \<open>
  A well-formed data row: a date that \<open>strptime\<close> accepts, an amount that \<open>Decimal\<close>
  accepts, a payee text and a payment reference column.
\<close>

definition well_formed_row :: "('rx, 'dec) env \<Rightarrow> 'rx N26Importer \<Rightarrow> row_dict \<Rightarrow> bool" where
  "well_formed_row E self line =
     ((case field_text self line (ascii ''date'') of
         None \<Rightarrow> False
       | Some s \<Rightarrow> \<not> isl (strptime E s))
    \<and> (case field_text self line (ascii ''amount_eur'') of
         None \<Rightarrow> False
       | Some s \<Rightarrow> \<not> isl (Decimal E s))
    \<and> field_text self line (ascii ''payee'') \<noteq> None
    \<and> (case translate self (ascii ''payment_reference'') of
         Inl e \<Rightarrow> False
       | Inr k \<Rightarrow> line (Some k) \<noteq> None))"

section \<open>A sample configuration and sample files\<close>

text \<open>
  Concrete inputs for the reference environment: an importer for English exports of the
  account \<open>Assets:N26\<close> with two payee patterns that both match \<open>Acme Corp\<close>, and a few
  files. The name \<open>missing.csv\<close> is not among them.
\<close>

definition shop_rule :: "str PayeePattern" where
  "shop_rule = \<lparr>regex = ascii ''acme'', pattern_account = ascii ''Expenses:Shop''\<rparr>"

definition misc_rule :: "str PayeePattern" where
  "misc_rule = \<lparr>regex = ascii ''ac'', pattern_account = ascii ''Expenses:Misc''\<rparr>"

definition sample_patterns :: "(str \<times> str list) list" where
  "sample_patterns =
     [(ascii ''Expenses:Shop'', [ascii ''^Acme'']), (ascii ''Expenses:Misc'', [ascii ''^Ac''])]"

definition sample_importer :: "str N26Importer" where
  "sample_importer =
     \<lparr>iban = ascii ''DE00'', account = ascii ''Assets:N26'', language = ascii ''en'',
      file_encoding = ascii ''utf-8'', payee_patterns = {shop_rule, misc_rule},
      translation_strings = map (\<lambda>(k, v). (k, label v)) fields_en\<rparr>"

definition sample_header :: str where
  "sample_header = ascii ''Date,Payee,Account number,Transaction type,Payment reference,Category,Amount (EUR),Amount (Foreign Currency),Type Foreign Currency,Exchange Rate''"

definition sample_file :: "str list \<Rightarrow> exception + text_stream" where
  "sample_file data = Inr \<lparr>delivered = (sample_header @ [10]) # data, failure = None\<rparr>"

definition sample_files :: "(str \<times> (exception + text_stream)) list" where
  "sample_files =
     [(ascii ''n26.csv'', sample_file
         [ascii ''2021-03-07,\"Acme Corp\",DE11,Payment,ref1,Shopping,-12.34,,,\<newline>'',
          ascii ''2021-03-05,Baker,,,ref2,Food,-3.50,,,\<newline>'']),
      (ascii ''empty.csv'', sample_file []),
      (ascii ''unpadded.csv'', sample_file [ascii ''2021-3-5,Baker,,,ref,Food,-3.50,,,\<newline>'']),
      (ascii ''comma.csv'',
         sample_file [ascii ''2021-03-05,Baker,,,ref,Food,\"12,34\",,,\<newline>'']),
      (ascii ''baddate.csv'',
         sample_file [ascii ''05.03.2021,Baker,,,ref,Food,-3.50,,,\<newline>'']),
      (ascii ''other.csv'', Inr \<lparr>delivered = [ascii ''a,b,c\<newline>''], failure = None\<rparr>),
      (ascii ''binary.pdf'', Inr \<lparr>delivered = [], failure = Some UnicodeDecodeError\<rparr>)]"

definition sample_env :: "str PayeePattern list \<Rightarrow> (str, decimal) env" where
  "sample_env order = ref_env sample_files order"

text \<open>The rows of \<open>n26.csv\<close> as the dictionary reader yields them.\<close>

definition n26_rows :: "row_dict list" where
  "n26_rows = map (DictReader_row (map snd (translation_strings sample_importer)))
     [[ascii ''2021-03-07'', ascii ''Acme Corp'', ascii ''DE11'', ascii ''Payment'', ascii ''ref1'',
       ascii ''Shopping'', ascii ''-12.34'', [], [], []],
      [ascii ''2021-03-05'', ascii ''Baker'', [], [], ascii ''ref2'', ascii ''Food'',
       ascii ''-3.50'', [], [], []]]"

text \<open>A second importer, whose two patterns never match the same text.\<close>

definition food_rule :: "str PayeePattern" where
  "food_rule = \<lparr>regex = ascii ''baker'', pattern_account = ascii ''Expenses:Food''\<rparr>"

definition food_importer :: "str N26Importer" where
  "food_importer = sample_importer\<lparr>payee_patterns := {shop_rule, food_rule}\<rparr>"

text \<open>
  The form \<open>YYYY-MM-DD\<close> in the words of the specification: four digits, a hyphen, two
  digits, a hyphen, two digits, and nothing else.
\<close>

definition exact_ymd :: "str \<Rightarrow> bool" where
  "exact_ymd s =
     (length s = 10 \<and> list_all digit (take 4 s) \<and> s ! 4 = 45
      \<and> list_all digit (take 2 (drop 5 s)) \<and> s ! 7 = 45 \<and> list_all digit (drop 8 s))"

text \<open>The data rows of \<open>unpadded.csv\<close>, \<open>comma.csv\<close> and \<open>baddate.csv\<close>.\<close>

definition unpadded_row :: row_dict where
  "unpadded_row = DictReader_row (map snd (translation_strings sample_importer))
     [ascii ''2021-3-5'', ascii ''Baker'', [], [], ascii ''ref'', ascii ''Food'',
      ascii ''-3.50'', [], [], []]"

definition comma_row :: row_dict where
  "comma_row = DictReader_row (map snd (translation_strings sample_importer))
     [ascii ''2021-03-05'', ascii ''Baker'', [], [], ascii ''ref'', ascii ''Food'',
      ascii ''12,34'', [], [], []]"

definition baddate_row :: row_dict where
  "baddate_row = DictReader_row (map snd (translation_strings sample_importer))
     [ascii ''05.03.2021'', ascii ''Baker'', [], [], ascii ''ref'', ascii ''Food'',
      ascii ''-3.50'', [], [], []]"

section \<open>The header matcher: properties\<close>

lemma split_not_Nil: "split d s \<noteq> []"
  by (induction s) (auto split: list.splits)

lemma split_no_sep: "d \<notin> set t \<Longrightarrow> split d (t @ d # s) = t # split d s"
  by (induction t) auto

lemma split_no_sep_end: "d \<notin> set t \<Longrightarrow> split d t = [t]"
  by (induction t) auto

lemma split_join: "ts \<noteq> [] \<Longrightarrow> \<forall>t\<in>set ts. d \<notin> set t \<Longrightarrow> split d (join d ts) = ts"
proof (induction d ts rule: join.induct)
  case (1 d) then show ?case by simp
next
  case (2 d x) then show ?case by (simp add: split_no_sep_end)
next
  case (3 d x y ys) then show ?case by (simp add: split_no_sep)
qed

lemma zip_all_equal_iff: "length xs = length ys \<Longrightarrow> zip_all_equal (zip xs ys) = (xs = ys)"
  by (induction xs ys rule: list_induct2) auto

lemma dropWhile_none: "\<forall>x\<in>set xs. \<not> P x \<Longrightarrow> dropWhile P xs = xs"
  by (cases xs) auto

lemma strip_none:
  assumes "set l \<inter> chars = {}"
  shows "strip chars l = l"
proof -
  have 1: "dropWhile (\<lambda>c. c \<in> chars) l = l"
    by (rule dropWhile_none) (use assms in auto)
  have 2: "dropWhile (\<lambda>c. c \<in> chars) (rev l) = rev l"
    by (rule dropWhile_none) (use assms in auto)
  show ?thesis by (simp add: strip_def 1 2)
qed

lemma strip_wrapped:
  assumes "set l \<inter> chars = {}" "q \<in> chars"
  shows "strip chars (q # l @ [q]) = l"
proof -
  have 1: "dropWhile (\<lambda>c. c \<in> chars) (l @ [q]) = (if l = [] then [] else l @ [q])"
    using assms by (cases l) auto
  have 2: "dropWhile (\<lambda>c. c \<in> chars) (rev l) = rev l"
    by (rule dropWhile_none) (use assms in auto)
  show ?thesis using assms(2) by (simp add: strip_def 1 2)
qed

lemma strip_quoted: "dquote \<notin> set l \<Longrightarrow> strip {dquote} (quoted q l) = l"
  by (simp add: quoted_def strip_none strip_wrapped)

lemma is_valid_header_char:
  assumes "header_values_for L True = Inr full" "header_values_for L False = Inr reduced"
    "length full \<noteq> length reduced"
  shows "is_valid_header L line =
    Inr (map (strip {dquote}) (split comma line) = full \<or> map (strip {dquote}) (split comma line) = reduced)"
  using assms by (auto simp: is_valid_header_def Let_def zip_all_equal_iff)

lemma supported_cases:
  "is_language_supported L \<Longrightarrow> L = ascii ''en'' \<or> L = ascii ''de'' \<or> L = ascii ''fr''"
  by (simp add: is_language_supported_def HEADER_FIELDS_def split: if_splits)

lemma map_strip_quoted:
  "length qs = length ls \<Longrightarrow> \<forall>l\<in>set ls. dquote \<notin> set l \<Longrightarrow>
   map (strip {dquote}) (map2 quoted qs ls) = ls"
  by (induction qs ls rule: list_induct2) (auto simp: strip_quoted)

lemma comma_quoted: "comma \<notin> set l \<Longrightarrow> comma \<notin> set (quoted q l)"
  by (simp add: quoted_def comma_def dquote_def)

lemma split_join_quoted:
  assumes "length qs = length ls" "ls \<noteq> []" "\<forall>l\<in>set ls. plain_label l"
  shows "map (strip {dquote}) (split comma (join comma (map2 quoted qs ls))) = ls"
proof -
  have ne: "map2 quoted qs ls \<noteq> []" using assms(1,2) by (cases qs; cases ls) auto
  have "\<forall>t\<in>set (map2 quoted qs ls). comma \<notin> set t"
    using assms(3) by (auto simp: plain_label_def comma_quoted dest!: set_zip_rightD)
  then have 1: "split comma (join comma (map2 quoted qs ls)) = map2 quoted qs ls"
    using ne by (simp add: split_join)
  have 2: "map (strip {dquote}) (map2 quoted qs ls) = ls"
    by (rule map_strip_quoted) (use assms in \<open>auto simp: plain_label_def\<close>)
  show ?thesis by (simp only: 1 2)
qed

lemma header_general:
  assumes f: "header_values_for L True = Inr full"
    and r: "header_values_for L False = Inr reduced"
    and len: "length full \<noteq> length reduced"
    and pf: "\<forall>l\<in>set full. plain_label l" and pr: "\<forall>l\<in>set reduced. plain_label l"
    and nf: "full \<noteq> []" and nr: "reduced \<noteq> []"
  shows "(\<forall>qs. length qs = length full \<longrightarrow>
            is_valid_header L (join comma (map2 quoted qs full)) = Inr True)
       \<and> (\<forall>qs. length qs = length reduced \<longrightarrow>
            is_valid_header L (join comma (map2 quoted qs reduced)) = Inr True)
       \<and> (\<forall>line. length (split comma line) \<noteq> length full
               \<and> length (split comma line) \<noteq> length reduced \<longrightarrow>
            is_valid_header L line = Inr False)
       \<and> (\<forall>line i. length (split comma line) = length full \<and> i < length full
               \<and> strip {dquote} (split comma line ! i) \<noteq> full ! i \<longrightarrow>
            is_valid_header L line = Inr False)
       \<and> (\<forall>line i. length (split comma line) = length reduced \<and> i < length reduced
               \<and> strip {dquote} (split comma line ! i) \<noteq> reduced ! i \<longrightarrow>
            is_valid_header L line = Inr False)"
proof (intro conjI allI impI)
  fix qs :: "bool list" assume "length qs = length full"
  then show "is_valid_header L (join comma (map2 quoted qs full)) = Inr True"
    using split_join_quoted[OF _ nf pf] by (simp add: is_valid_header_char[OF f r len])
next
  fix qs :: "bool list" assume "length qs = length reduced"
  then show "is_valid_header L (join comma (map2 quoted qs reduced)) = Inr True"
    using split_join_quoted[OF _ nr pr] by (simp add: is_valid_header_char[OF f r len])
next
  fix line assume "length (split comma line) \<noteq> length full
               \<and> length (split comma line) \<noteq> length reduced"
  then show "is_valid_header L line = Inr False"
    by (auto simp: is_valid_header_char[OF f r len])
next
  fix line i assume a: "length (split comma line) = length full \<and> i < length full
               \<and> strip {dquote} (split comma line ! i) \<noteq> full ! i"
  then have "map (strip {dquote}) (split comma line) ! i \<noteq> full ! i" by simp
  then have "map (strip {dquote}) (split comma line) \<noteq> full" by metis
  moreover have "map (strip {dquote}) (split comma line) \<noteq> reduced" using a len by auto
  ultimately show "is_valid_header L line = Inr False"
    by (simp add: is_valid_header_char[OF f r len])
next
  fix line i assume a: "length (split comma line) = length reduced \<and> i < length reduced
               \<and> strip {dquote} (split comma line ! i) \<noteq> reduced ! i"
  then have "map (strip {dquote}) (split comma line) ! i \<noteq> reduced ! i" by simp
  then have "map (strip {dquote}) (split comma line) \<noteq> reduced" by metis
  moreover have "map (strip {dquote}) (split comma line) \<noteq> full" using a len by auto
  ultimately show "is_valid_header L line = Inr False"
    by (simp add: is_valid_header_char[OF f r len])
qed

lemmas schema_defs = header_values_for_def translation_strings_for_def HEADER_FIELDS_def
  fields_en_def fields_de_def fields_fr_def fld_def ascii_def

lemma schema_facts:
  assumes "is_language_supported L"
  shows "\<exists>ts. translation_strings_for L = Inr ts
     \<and> header_values_for L True = Inr (map snd ts)
     \<and> header_values_for L False = Inr (map snd (filter (\<lambda>(k, l). k \<noteq> ascii ''category'') ts))
     \<and> length ts = 10
     \<and> length (filter (\<lambda>(k, l). k \<noteq> ascii ''category'') ts) = 9
     \<and> (\<forall>l\<in>set (map snd ts). plain_label l)"
  using supported_cases[OF assms]
  by (elim disjE) (simp_all add: schema_defs plain_label_def comma_def dquote_def)

lemmas eval_header = is_valid_header_def Let_def strip_def comma_def dquote_def

text \<open>
  Claim C8. For two distinct supported languages L and M, the header check for L answers
  False on the full header line of M (the labels of M joined by commas), although the two
  schemas have the same number of columns.
\<close>

theorem other_language_header_rejected:
  assumes "is_language_supported L" "is_language_supported M" "L \<noteq> M"
  shows "\<exists>hl hm. header_values_for L True = Inr hl \<and> header_values_for M True = Inr hm
           \<and> length hl = length hm
           \<and> is_valid_header L (join comma hm) = Inr False"
  using supported_cases[OF assms(1)] supported_cases[OF assms(2)] assms(3)
  by (elim disjE) (simp_all add: schema_defs eval_header)

theorem other_language_header_rejected_witness:
  "is_language_supported (ascii ''en'') \<and> is_language_supported (ascii ''fr'')
   \<and> ascii ''en'' \<noteq> ascii ''fr''
   \<and> hd (map (label \<circ> snd) fields_en) = hd (map (label \<circ> snd) fields_fr)
   \<and> length fields_en = length fields_fr
   \<and> is_valid_header (ascii ''en'') (join comma (map (label \<circ> snd) fields_fr)) = Inr False"
proof -
  have h1: "is_language_supported (ascii ''en'')"
    by (simp add: is_language_supported_def HEADER_FIELDS_def)
  have h2: "is_language_supported (ascii ''fr'')"
    by (simp add: is_language_supported_def HEADER_FIELDS_def ascii_def)
  have h3: "ascii ''en'' \<noteq> ascii ''fr''"
    by (simp add: ascii_def)
  from other_language_header_rejected[OF h1 h2 h3] obtain hl hm where f:
    "header_values_for (ascii ''fr'') True = Inr hm"
    "is_valid_header (ascii ''en'') (join comma hm) = Inr False"
    by blast
  have "hm = map (label \<circ> snd) fields_fr"
    using f(1) by (simp add: header_values_for_def translation_strings_for_def HEADER_FIELDS_def
      ascii_def fields_fr_def)
  then have "is_valid_header (ascii ''en'') (join comma (map (label \<circ> snd) fields_fr)) = Inr False"
    using f(2) by simp
  moreover have "hd (map (label \<circ> snd) fields_en) = hd (map (label \<circ> snd) fields_fr)"
    by (simp add: fields_en_def fields_fr_def fld_def)
  moreover have "length fields_en = length fields_fr"
    by (simp add: fields_en_def fields_fr_def)
  ultimately show ?thesis using h1 h2 h3 by simp
qed

text \<open>
  Claim C1. For a supported language, the header check answers True on the full ordered
  list of labels joined by commas, each label wrapped in double quotes or not, and on the
  same list without the optional category column; it answers False on every line whose
  number of comma-separated tokens is neither of the two lengths, and False when the
  number of tokens is one of the two lengths and a token, its quotes stripped, differs
  from the label at its position.
\<close>

theorem is_valid_header_accepts_schema:
  assumes "is_language_supported L"
  shows "\<exists>ts full reduced.
       translation_strings_for L = Inr ts
     \<and> full = map snd ts
     \<and> reduced = map snd (filter (\<lambda>(k, l). k \<noteq> ascii ''category'') ts)
     \<and> header_values_for L True = Inr full
     \<and> header_values_for L False = Inr reduced
     \<and> (\<forall>qs. length qs = length full \<longrightarrow>
            is_valid_header L (join comma (map2 quoted qs full)) = Inr True)
     \<and> (\<forall>qs. length qs = length reduced \<longrightarrow>
            is_valid_header L (join comma (map2 quoted qs reduced)) = Inr True)
     \<and> (\<forall>line. length (split comma line) \<noteq> length full
               \<and> length (split comma line) \<noteq> length reduced \<longrightarrow>
            is_valid_header L line = Inr False)
     \<and> (\<forall>line i. length (split comma line) = length full \<and> i < length full
               \<and> strip {dquote} (split comma line ! i) \<noteq> full ! i \<longrightarrow>
            is_valid_header L line = Inr False)
     \<and> (\<forall>line i. length (split comma line) = length reduced \<and> i < length reduced
               \<and> strip {dquote} (split comma line ! i) \<noteq> reduced ! i \<longrightarrow>
            is_valid_header L line = Inr False)"
proof -
  from schema_facts[OF assms] obtain ts where ts:
    "translation_strings_for L = Inr ts"
    "header_values_for L True = Inr (map snd ts)"
    "header_values_for L False = Inr (map snd (filter (\<lambda>(k, l). k \<noteq> ascii ''category'') ts))"
    "length ts = 10"
    "length (filter (\<lambda>(k, l). k \<noteq> ascii ''category'') ts) = 9"
    "\<forall>l\<in>set (map snd ts). plain_label l"
    by blast
  let ?full = "map snd ts"
  let ?reduced = "map snd (filter (\<lambda>(k, l). k \<noteq> ascii ''category'') ts)"
  have len: "length ?full \<noteq> length ?reduced" using ts(4,5) by simp
  have pr: "\<forall>l\<in>set ?reduced. plain_label l" using ts(6) by auto
  have nf: "?full \<noteq> []" using ts(4) by auto
  have nr: "?reduced \<noteq> []" using ts(5) by auto
  note g = header_general[OF ts(2) ts(3) len ts(6) pr nf nr]
  show ?thesis
    apply (rule exI[of _ ts], rule exI[of _ ?full], rule exI[of _ ?reduced])
    using ts(1,2,3) g by blast
qed

theorem is_valid_header_accepts_schema_witness:
  "is_language_supported (ascii ''en'')
   \<and> is_valid_header (ascii ''en'')
        (ascii ''Date,Payee,Account number,Transaction type,Payment reference,Category,Amount (EUR),Amount (Foreign Currency),Type Foreign Currency,Exchange Rate'') = Inr True
   \<and> is_valid_header (ascii ''en'')
        (ascii ''\"Date\",\"Payee\",Account number,Transaction type,Payment reference,Amount (EUR),Amount (Foreign Currency),Type Foreign Currency,Exchange Rate'') = Inr True
   \<and> is_valid_header (ascii ''en'') (ascii ''Date,Payee'') = Inr False
   \<and> is_valid_header (ascii ''en'')
        (ascii ''Date,Payee,Account number,Transaction type,Payment reference,Amount (EUR),Amount (Foreign Currency),Type Foreign Currency,Rate'') = Inr False"
proof -
  have h: "is_language_supported (ascii ''en'')"
    by (simp add: is_language_supported_def HEADER_FIELDS_def)
  from is_valid_header_accepts_schema[OF h] obtain ts full reduced where f:
    "translation_strings_for (ascii ''en'') = Inr ts"
    "full = map snd ts"
    "reduced = map snd (filter (\<lambda>(k, l). k \<noteq> ascii ''category'') ts)"
    "\<forall>qs. length qs = length full \<longrightarrow>
        is_valid_header (ascii ''en'') (join comma (map2 quoted qs full)) = Inr True"
    "\<forall>qs. length qs = length reduced \<longrightarrow>
        is_valid_header (ascii ''en'') (join comma (map2 quoted qs reduced)) = Inr True"
    "\<forall>line. length (split comma line) \<noteq> length full
               \<and> length (split comma line) \<noteq> length reduced \<longrightarrow>
            is_valid_header (ascii ''en'') line = Inr False"
    "\<forall>line i. length (split comma line) = length reduced \<and> i < length reduced
               \<and> strip {dquote} (split comma line ! i) \<noteq> reduced ! i \<longrightarrow>
            is_valid_header (ascii ''en'') line = Inr False"
    by blast
  have ts: "ts = map (\<lambda>(k, v). (k, label v)) fields_en"
    using f(1) by (simp add: translation_strings_for_def HEADER_FIELDS_def)
  have full: "full = [ascii ''Date'', ascii ''Payee'', ascii ''Account number'',
      ascii ''Transaction type'', ascii ''Payment reference'', ascii ''Category'',
      ascii ''Amount (EUR)'', ascii ''Amount (Foreign Currency)'',
      ascii ''Type Foreign Currency'', ascii ''Exchange Rate'']"
    unfolding f(2) ts by (simp add: fields_en_def fld_def)
  have red: "reduced = [ascii ''Date'', ascii ''Payee'', ascii ''Account number'',
      ascii ''Transaction type'', ascii ''Payment reference'',
      ascii ''Amount (EUR)'', ascii ''Amount (Foreign Currency)'',
      ascii ''Type Foreign Currency'', ascii ''Exchange Rate'']"
    unfolding f(3) ts by (simp add: fields_en_def fld_def ascii_def)
  have "length (replicate 10 False) = length full"
    unfolding full by simp
  then have "is_valid_header (ascii ''en'') (join comma (map2 quoted (replicate 10 False) full)) = Inr True"
    by (rule f(4)[rule_format])
  moreover have "join comma (map2 quoted (replicate 10 False) full) = ascii ''Date,Payee,Account number,Transaction type,Payment reference,Category,Amount (EUR),Amount (Foreign Currency),Type Foreign Currency,Exchange Rate''"
    unfolding full by (simp add: ascii_def quoted_def comma_def eval_nat_numeral)
  ultimately have a: "is_valid_header (ascii ''en'')
        (ascii ''Date,Payee,Account number,Transaction type,Payment reference,Category,Amount (EUR),Amount (Foreign Currency),Type Foreign Currency,Exchange Rate'') = Inr True"
    by simp
  have "length (True # True # replicate 7 False) = length reduced"
    unfolding red by simp
  then have "is_valid_header (ascii ''en'')
      (join comma (map2 quoted (True # True # replicate 7 False) reduced)) = Inr True"
    by (rule f(5)[rule_format])
  moreover have "join comma (map2 quoted (True # True # replicate 7 False) reduced) = ascii ''\"Date\",\"Payee\",Account number,Transaction type,Payment reference,Amount (EUR),Amount (Foreign Currency),Type Foreign Currency,Exchange Rate''"
    unfolding red by (simp add: ascii_def quoted_def comma_def dquote_def eval_nat_numeral)
  ultimately have b: "is_valid_header (ascii ''en'')
        (ascii ''\"Date\",\"Payee\",Account number,Transaction type,Payment reference,Amount (EUR),Amount (Foreign Currency),Type Foreign Currency,Exchange Rate'') = Inr True"
    by simp
  have c: "is_valid_header (ascii ''en'') (ascii ''Date,Payee'') = Inr False"
    using f(6)[rule_format, of "ascii ''Date,Payee''"] full red
    by (simp add: ascii_def comma_def)
  have d: "is_valid_header (ascii ''en'')
        (ascii ''Date,Payee,Account number,Transaction type,Payment reference,Amount (EUR),Amount (Foreign Currency),Type Foreign Currency,Rate'') = Inr False"
    using f(7)[rule_format, of "ascii ''Date,Payee,Account number,Transaction type,Payment reference,Amount (EUR),Amount (Foreign Currency),Type Foreign Currency,Rate''" 8] red
    by (simp add: ascii_def comma_def dquote_def strip_def)
  show ?thesis using h a b c d by blast
qed

section \<open>The importer: auxiliary facts\<close>

lemma init_facts:
  assumes "init E ib acc lang enc aps = Inr self"
  shows "is_language_supported lang" "language self = lang" "account self = acc"
    "file_encoding self = enc" "iban self = ib"
    "translation_strings_for lang = Inr (translation_strings self)"
  using assms by (auto simp: init_def split: if_splits sum.splits)

lemma translate_keys:
  assumes "init E ib acc lang enc aps = Inr self"
  shows "\<exists>d p r a. translate self (ascii ''date'') = Inr d
     \<and> translate self (ascii ''payee'') = Inr p
     \<and> translate self (ascii ''payment_reference'') = Inr r
     \<and> translate self (ascii ''amount_eur'') = Inr a"
proof -
  note f = init_facts[OF assms]
  from supported_cases[OF f(1)] f(6)[symmetric] show ?thesis
    by (elim disjE) (simp_all add: translate_def schema_defs)
qed

lemma Max_absorb:
  assumes "finite A" "A \<noteq> {}" "finite B"
  shows "Max (B \<union> {Max A}) = Max (B \<union> A)"
proof (cases "B = {}")
  case True then show ?thesis by simp
next
  case False
  then show ?thesis using assms by (simp add: Max_Un max.commute)
qed

lemma file_date_loop_max:
  "map (\<lambda>line. parse_date E self line (ascii ''date'')) rows = map Inr ds \<Longrightarrow>
   file_date_loop E self rows d0 =
     Inr (if ds = [] then d0 else Some (Max (set ds \<union> set_option d0)))"
proof (induction rows arbitrary: ds d0)
  case Nil
  then show ?case by simp
next
  case (Cons line rows)
  then obtain d ds' where ds: "ds = d # ds'" "parse_date E self line (ascii ''date'') = Inr d"
    "map (\<lambda>line. parse_date E self line (ascii ''date'')) rows = map Inr ds'"
    by (cases ds) auto
  define d1 where "d1 = (case d0 of None \<Rightarrow> Some d | Some d' \<Rightarrow> if d > d' then Some d else Some d')"
  have d1: "d1 = Some (Max ({d} \<union> set_option d0))"
    by (cases d0) (auto simp: d1_def max_def)
  have step: "file_date_loop E self (line # rows) d0 = file_date_loop E self rows d1"
    using ds(2) by (simp add: d1_def)
  have ih: "file_date_loop E self rows d1 =
     Inr (if ds' = [] then d1 else Some (Max (set ds' \<union> set_option d1)))"
    by (rule Cons.IH[OF ds(3)])
  have mx: "Max (set ds' \<union> {Max ({d} \<union> set_option d0)}) = Max (set ds' \<union> ({d} \<union> set_option d0))"
    by (rule Max_absorb) auto
  show ?case
  proof (cases "ds' = []")
    case True
    have "file_date_loop E self (line # rows) d0 = Inr d1"
      unfolding step ih using True by simp
    then show ?thesis unfolding d1 using True ds(1) by simp
  next
    case False
    have "file_date_loop E self (line # rows) d0 = Inr (Some (Max (set ds' \<union> {Max ({d} \<union> set_option d0)})))"
      unfolding step ih using False by (simp add: d1)
    also have "\<dots> = Inr (Some (Max (set ds \<union> set_option d0)))"
      unfolding mx by (simp add: ds(1) Un_commute Un_left_commute)
    finally show ?thesis using ds(1) by simp
  qed
qed

lemma classify_filter:
  "line (Some sp) = Some (Str p) \<Longrightarrow>
   classify E line sp rules m =
     Inr (case filter (\<lambda>r. re_match E (regex r) p) rules of
            [] \<Rightarrow> m
          | r # rs \<Rightarrow> Some (pattern_account (last (r # rs))))"
proof (induction rules arbitrary: m)
  case Nil
  then show ?case by simp
next
  case (Cons r rules)
  show ?case
    using Cons.prems Cons.IH[OF Cons.prems]
    by (auto simp: getitem_def split: list.splits)
qed

lemma field_textD:
  "field_text self line key = Some s \<Longrightarrow>
   \<exists>k. translate self key = Inr k \<and> line (Some k) = Some (Str s)"
  by (simp add: field_text_def split: sum.splits option.splits pyval.splits)

lemma not_isl_Inr: "\<not> isl x \<Longrightarrow> \<exists>y. x = Inr y"
  by (cases x) auto

lemma well_formed_rowD:
  assumes "well_formed_row E self line"
  shows "\<exists>kd ka kp kr sd sa sp' v d amt.
      translate self (ascii ''date'') = Inr kd \<and> line (Some kd) = Some (Str sd)
    \<and> strptime E sd = Inr d
    \<and> translate self (ascii ''amount_eur'') = Inr ka \<and> line (Some ka) = Some (Str sa)
    \<and> Decimal E sa = Inr amt
    \<and> translate self (ascii ''payee'') = Inr kp \<and> line (Some kp) = Some (Str sp')
    \<and> translate self (ascii ''payment_reference'') = Inr kr \<and> line (Some kr) = Some v
    \<and> field_text self line (ascii ''date'') = Some sd
    \<and> field_text self line (ascii ''amount_eur'') = Some sa
    \<and> field_text self line (ascii ''payee'') = Some sp'"
proof -
  from assms obtain sd where sd: "field_text self line (ascii ''date'') = Some sd"
    "\<not> isl (strptime E sd)"
    by (cases "field_text self line (ascii ''date'')") (simp_all add: well_formed_row_def)
  from assms obtain sa where sa: "field_text self line (ascii ''amount_eur'') = Some sa"
    "\<not> isl (Decimal E sa)"
    by (cases "field_text self line (ascii ''amount_eur'')") (simp_all add: well_formed_row_def)
  from assms obtain sp' where sp: "field_text self line (ascii ''payee'') = Some sp'"
    by (cases "field_text self line (ascii ''payee'')") (simp_all add: well_formed_row_def)
  from assms obtain kr where kr: "translate self (ascii ''payment_reference'') = Inr kr"
    "line (Some kr) \<noteq> None"
    by (cases "translate self (ascii ''payment_reference'')") (simp_all add: well_formed_row_def)
  from kr(2) obtain v where v: "line (Some kr) = Some v" by auto
  from field_textD[OF sd(1)] obtain kd where kd:
    "translate self (ascii ''date'') = Inr kd" "line (Some kd) = Some (Str sd)" by blast
  from field_textD[OF sa(1)] obtain ka where ka:
    "translate self (ascii ''amount_eur'') = Inr ka" "line (Some ka) = Some (Str sa)" by blast
  from field_textD[OF sp] obtain kp where kp:
    "translate self (ascii ''payee'') = Inr kp" "line (Some kp) = Some (Str sp')" by blast
  from not_isl_Inr[OF sd(2)] obtain d where d: "strptime E sd = Inr d" by blast
  from not_isl_Inr[OF sa(2)] obtain amt where amt: "Decimal E sa = Inr amt" by blast
  show ?thesis using sd(1) sa(1) sp kr(1) v kd ka kp d amt by blast
qed

lemma extract_row_wf:
  assumes wf: "well_formed_row E self line"
    and ka: "translate self (ascii ''amount_eur'') = Inr sa"
    and kp: "translate self (ascii ''payee'') = Inr sp"
    and kr: "translate self (ascii ''payment_reference'') = Inr sr"
  shows "\<exists>t. extract_row E self file sa sp sr i line = Inr t
    \<and> meta t = \<lparr>filename = name file, lineno = i\<rparr>
    \<and> strptime E (the (field_text self line (ascii ''date''))) = Inr (txn_date t)
    \<and> parse_date E self line (ascii ''date'') = Inr (txn_date t)
    \<and> payee t = Str (the (field_text self line (ascii ''payee'')))"
proof -
  from well_formed_rowD[OF wf] ka kp kr obtain kd sd sa' sp' v d amt where f:
    "translate self (ascii ''date'') = Inr kd" "line (Some kd) = Some (Str sd)"
    "strptime E sd = Inr d"
    "line (Some sa) = Some (Str sa')" "Decimal E sa' = Inr amt"
    "line (Some sp) = Some (Str sp')" "line (Some sr) = Some v"
    "field_text self line (ascii ''date'') = Some sd"
    "field_text self line (ascii ''payee'') = Some sp'"
    by auto
  have pd: "parse_date E self line (ascii ''date'') = Inr d"
    by (simp add: parse_date_def f(1,2,3) getitem_def)
  obtain m where m: "classify E line sp (set_iter E (payee_patterns self)) None = Inr m"
    using classify_filter[where line=line and sp=sp and p=sp', OF f(6)] by blast
  show ?thesis
    by (simp add: extract_row_def getitem_def f(3,4,5,6,7,8,9) m pd)
qed

lemma extract_loop_wf:
  assumes ka: "translate self (ascii ''amount_eur'') = Inr sa"
    and kp: "translate self (ascii ''payee'') = Inr sp"
    and kr: "translate self (ascii ''payment_reference'') = Inr sr"
  shows "\<forall>line\<in>set rows. well_formed_row E self line \<Longrightarrow>
    \<exists>recs. extract_loop E self file sa sp sr i rows = Inr recs
      \<and> length recs = length rows
      \<and> map (\<lambda>line. parse_date E self line (ascii ''date'')) rows = map (Inr \<circ> txn_date) recs
      \<and> (\<forall>j<length rows.
            meta (recs ! j) = \<lparr>filename = name file, lineno = i + j\<rparr>
          \<and> strptime E (the (field_text self (rows ! j) (ascii ''date''))) = Inr (txn_date (recs ! j))
          \<and> payee (recs ! j) = Str (the (field_text self (rows ! j) (ascii ''payee''))))"
proof (induction rows arbitrary: i)
  case Nil
  then show ?case by simp
next
  case (Cons line rows)
  from Cons.prems have wf: "well_formed_row E self line"
    and rest: "\<forall>l\<in>set rows. well_formed_row E self l" by auto
  from extract_row_wf[OF wf ka kp kr, where i=i] obtain t where t:
    "extract_row E self file sa sp sr i line = Inr t"
    "meta t = \<lparr>filename = name file, lineno = i\<rparr>"
    "strptime E (the (field_text self line (ascii ''date''))) = Inr (txn_date t)"
    "parse_date E self line (ascii ''date'') = Inr (txn_date t)"
    "payee t = Str (the (field_text self line (ascii ''payee'')))"
    by blast
  from Cons.IH[OF rest, of "Suc i"] obtain recs where r:
    "extract_loop E self file sa sp sr (Suc i) rows = Inr recs"
    "length recs = length rows"
    "map (\<lambda>line. parse_date E self line (ascii ''date'')) rows = map (Inr \<circ> txn_date) recs"
    "\<forall>j<length rows.
            meta (recs ! j) = \<lparr>filename = name file, lineno = Suc i + j\<rparr>
          \<and> strptime E (the (field_text self (rows ! j) (ascii ''date''))) = Inr (txn_date (recs ! j))
          \<and> payee (recs ! j) = Str (the (field_text self (rows ! j) (ascii ''payee'')))"
    by blast
  have "\<forall>j<length (line # rows).
            meta ((t # recs) ! j) = \<lparr>filename = name file, lineno = i + j\<rparr>
          \<and> strptime E (the (field_text self ((line # rows) ! j) (ascii ''date''))) = Inr (txn_date ((t # recs) ! j))
          \<and> payee ((t # recs) ! j) = Str (the (field_text self ((line # rows) ! j) (ascii ''payee'')))"
  proof (intro allI impI)
    fix j assume "j < length (line # rows)"
    then show "meta ((t # recs) ! j) = \<lparr>filename = name file, lineno = i + j\<rparr>
          \<and> strptime E (the (field_text self ((line # rows) ! j) (ascii ''date''))) = Inr (txn_date ((t # recs) ! j))
          \<and> payee ((t # recs) ! j) = Str (the (field_text self ((line # rows) ! j) (ascii ''payee'')))"
      using t(2,3,5) r(4) by (cases j) auto
  qed
  then show ?case using t(1,4) r(1,2,3) by simp
qed

section \<open>Extraction and the file date\<close>

lemma identify_False_extract:
  "identify E self file = Inr False \<Longrightarrow> extract E self file = Inr []"
  by (simp add: extract_def)

lemma identify_False_file_date:
  "identify E self file = Inr False \<Longrightarrow> file_date E self file = Inr None"
  by (simp add: file_date_def)

lemma extract_unfold:
  assumes "identify E self file = Inr True"
    and "translate self (ascii ''amount_eur'') = Inr sa"
    and "translate self (ascii ''payee'') = Inr sp"
    and "translate self (ascii ''payment_reference'') = Inr sr"
    and "open_text E (name file) (file_encoding self) = Inr fd"
    and "DictReader (csv_reader E fd) = (rows, err)"
  shows "extract E self file =
    (case extract_loop E self file sa sp sr 0 rows of
       Inl e \<Rightarrow> Inl e
     | Inr entries \<Rightarrow> (case err of Some e \<Rightarrow> Inl e | None \<Rightarrow> Inr entries))"
  using assms by (simp add: extract_def Let_def split: sum.splits)

lemma file_date_unfold:
  assumes "identify E self file = Inr True"
    and "open_text E (name file) (file_encoding self) = Inr fd"
    and "DictReader (csv_reader E fd) = (rows, err)"
  shows "file_date E self file =
    (case file_date_loop E self rows None of
       Inl e \<Rightarrow> Inl e
     | Inr d \<Rightarrow> (case err of Some e \<Rightarrow> Inl e | None \<Rightarrow> Inr d))"
  using assms by (simp add: file_date_def Let_def split: sum.splits)

text \<open>
  Claim C4. On a file that is not identified, \<open>extract\<close> returns the empty list and
  \<open>file_date\<close> returns \<open>None\<close>. On an identified file whose reader yields N well-formed
  rows and ends without an exception, \<open>extract\<close> returns N records in the order of the
  rows; record j carries the file name and the index j and the date and payee of row j;
  and \<open>file_date\<close> returns the greatest of the N dates (and \<open>None\<close> for N = 0).
\<close>

theorem extract_rows_in_order:
  "(identify E self file = Inr False \<longrightarrow>
      extract E self file = Inr [] \<and> file_date E self file = Inr None)
   \<and> (init E ib acc lang enc aps = Inr self
      \<and> identify E self file = Inr True
      \<and> open_text E (name file) (file_encoding self) = Inr fd
      \<and> DictReader (csv_reader E fd) = (rows, None)
      \<and> (\<forall>line\<in>set rows. well_formed_row E self line) \<longrightarrow>
      (\<exists>recs. extract E self file = Inr recs
         \<and> length recs = length rows
         \<and> (\<forall>j<length rows.
               meta (recs ! j) = \<lparr>filename = name file, lineno = j\<rparr>
             \<and> strptime E (the (field_text self (rows ! j) (ascii ''date'')))
                 = Inr (txn_date (recs ! j))
             \<and> payee (recs ! j) = Str (the (field_text self (rows ! j) (ascii ''payee''))))
         \<and> file_date E self file =
             Inr (if rows = [] then None else Some (Max (set (map txn_date recs))))))"
proof (intro conjI impI)
  assume "identify E self file = Inr False"
  then show "extract E self file = Inr []" by (rule identify_False_extract)
next
  assume "identify E self file = Inr False"
  then show "file_date E self file = Inr None" by (rule identify_False_file_date)
next
  assume a: "init E ib acc lang enc aps = Inr self
      \<and> identify E self file = Inr True
      \<and> open_text E (name file) (file_encoding self) = Inr fd
      \<and> DictReader (csv_reader E fd) = (rows, None)
      \<and> (\<forall>line\<in>set rows. well_formed_row E self line)"
  from translate_keys[of E ib acc lang enc aps self] a obtain sa sp sr where k:
    "translate self (ascii ''amount_eur'') = Inr sa"
    "translate self (ascii ''payee'') = Inr sp"
    "translate self (ascii ''payment_reference'') = Inr sr"
    by blast
  from a have wf: "\<forall>line\<in>set rows. well_formed_row E self line" by blast
  from extract_loop_wf[OF k wf, where i=0] obtain recs where r:
    "extract_loop E self file sa sp sr 0 rows = Inr recs"
    "length recs = length rows"
    "map (\<lambda>line. parse_date E self line (ascii ''date'')) rows = map (Inr \<circ> txn_date) recs"
    "\<forall>j<length rows.
            meta (recs ! j) = \<lparr>filename = name file, lineno = 0 + j\<rparr>
          \<and> strptime E (the (field_text self (rows ! j) (ascii ''date''))) = Inr (txn_date (recs ! j))
          \<and> payee (recs ! j) = Str (the (field_text self (rows ! j) (ascii ''payee'')))"
    by blast
  have ex: "extract E self file = Inr recs"
    using extract_unfold[OF _ k, of E "file" fd rows None] a r(1) by simp
  have "map (\<lambda>line. parse_date E self line (ascii ''date'')) rows = map Inr (map txn_date recs)"
    using r(3) by simp
  from file_date_loop_max[OF this, of None]
  have "file_date_loop E self rows None =
     Inr (if map txn_date recs = [] then None else Some (Max (set (map txn_date recs))))"
    by simp
  then have fdt: "file_date E self file =
             Inr (if rows = [] then None else Some (Max (set (map txn_date recs))))"
    using file_date_unfold[of E self "file" fd rows None] a r(2) by auto
  show "\<exists>recs. extract E self file = Inr recs
         \<and> length recs = length rows
         \<and> (\<forall>j<length rows.
               meta (recs ! j) = \<lparr>filename = name file, lineno = j\<rparr>
             \<and> strptime E (the (field_text self (rows ! j) (ascii ''date'')))
                 = Inr (txn_date (recs ! j))
             \<and> payee (recs ! j) = Str (the (field_text self (rows ! j) (ascii ''payee''))))
         \<and> file_date E self file =
             Inr (if rows = [] then None else Some (Max (set (map txn_date recs))))"
    using ex r(2,4) fdt by (intro exI[of _ recs]) simp
qed

lemmas csv_eval = ref_csv_reader_def start_field_def is_newline_def after_newline_def
  add_char_def field_limit_def comma_def dquote_def ascii_def

lemmas date_eval = ref_strptime_def match_month_day_def after_month_def match_day_def digit_def
  nonzero_digit_def nat_of_digits_def days_in_month_def leap_year_def ascii_def

lemmas dec_eval = ref_Decimal_def parse_number_def parse_special_def parse_exponent_def lower_def
  digit_def nat_of_digits_def strip_def whitespace_def ascii_def Let_def

lemmas re_eval = ref_re_compile_def ref_re_match_def literal_char_def lower_def digit_def
  ascii_def Let_def

lemmas sample_eval = sample_env_def ref_env_def sample_files_def sample_file_def
  sample_header_def sample_importer_def

lemma sample_init:
  "init (sample_env order) (ascii ''DE00'') (ascii ''Assets:N26'') (ascii ''en'')
     (ascii ''utf-8'') sample_patterns = Inr sample_importer"
  by (simp add: init_def sample_env_def ref_env_def sample_patterns_def sample_importer_def
      shop_rule_def misc_rule_def is_language_supported_def schema_defs re_eval insert_commute)

lemma sample_open:
  "open_text (sample_env order) n (file_encoding sample_importer) =
     (case map_of sample_files n of None \<Rightarrow> Inl OSError | Some r \<Rightarrow> r)"
  by (simp add: sample_env_def ref_env_def)

lemma sample_identify:
  "map_of sample_files n = Some (sample_file data) \<Longrightarrow>
   identify (sample_env order) sample_importer \<lparr>name = n\<rparr> = Inr True"
  by (simp add: identify_def sample_open)
     (simp add: sample_file_def sample_header_def sample_importer_def readline_def
       whitespace_def schema_defs eval_header)

lemma sample_header_row:
  "feed (START_RECORD, [], []) (map Some sample_header @ [Some 10, None]) =
     Inr (START_RECORD, [], map snd (translation_strings sample_importer))"
  by (simp add: sample_header_def sample_importer_def fields_en_def fld_def csv_eval)

lemma sample_reader:
  "csv_reader (sample_env order) \<lparr>delivered = (sample_header @ [10]) # data, failure = None\<rparr> =
     (case reader_rows data None (START_RECORD, [], []) of
        (rows, err) \<Rightarrow> (map snd (translation_strings sample_importer) # rows, err))"
  by (simp add: sample_env_def ref_env_def ref_csv_reader_def sample_header_row)

lemma n26_reader:
  "DictReader (csv_reader (sample_env order) \<lparr>delivered = (sample_header @ [10]) #
      [ascii ''2021-03-07,\"Acme Corp\",DE11,Payment,ref1,Shopping,-12.34,,,\<newline>'',
       ascii ''2021-03-05,Baker,,,ref2,Food,-3.50,,,\<newline>''], failure = None\<rparr>)
   = (n26_rows, None)"
  unfolding sample_reader n26_rows_def
  by (simp add: DictReader_def csv_eval)

lemmas row_eval = DictReader_row_def field_text_def translate_def sample_importer_def
  fields_en_def fld_def ascii_def

lemma n26_text0: "field_text sample_importer (n26_rows ! 0) (ascii ''date'') = Some (ascii ''2021-03-07'')"
  by (simp add: n26_rows_def row_eval)

lemma n26_wf: "\<forall>line\<in>set n26_rows. well_formed_row (sample_env order) sample_importer line"
  by (simp add: n26_rows_def well_formed_row_def row_eval sample_env_def ref_env_def)
     (simp add: date_eval dec_eval)

lemma sample_lookup_n26:
  "map_of sample_files (ascii ''n26.csv'') = Some (sample_file
         [ascii ''2021-03-07,\"Acme Corp\",DE11,Payment,ref1,Shopping,-12.34,,,\<newline>'',
          ascii ''2021-03-05,Baker,,,ref2,Food,-3.50,,,\<newline>''])"
  by (simp add: sample_files_def)

lemma sample_identify_other:
  "identify (sample_env order) sample_importer \<lparr>name = ascii ''other.csv''\<rparr> = Inr False"
  by (simp add: identify_def sample_open)
     (simp add: sample_files_def sample_importer_def readline_def ascii_def
       whitespace_def schema_defs eval_header)

theorem extract_rows_in_order_witness:
  "identify (sample_env [shop_rule, misc_rule]) sample_importer \<lparr>name = ascii ''other.csv''\<rparr>
     = Inr False
   \<and> extract (sample_env [shop_rule, misc_rule]) sample_importer \<lparr>name = ascii ''other.csv''\<rparr>
     = Inr []
   \<and> file_date (sample_env [shop_rule, misc_rule]) sample_importer \<lparr>name = ascii ''other.csv''\<rparr>
     = Inr None
   \<and> identify (sample_env [shop_rule, misc_rule]) sample_importer \<lparr>name = ascii ''n26.csv''\<rparr>
     = Inr True
   \<and> map (lineno \<circ> meta)
        (projr (extract (sample_env [shop_rule, misc_rule]) sample_importer
                  \<lparr>name = ascii ''n26.csv''\<rparr>)) = [0, 1]
   \<and> map txn_date
        (projr (extract (sample_env [shop_rule, misc_rule]) sample_importer
                  \<lparr>name = ascii ''n26.csv''\<rparr>)) = [(2021, 3, 7), (2021, 3, 5)]
   \<and> file_date (sample_env [shop_rule, misc_rule]) sample_importer \<lparr>name = ascii ''n26.csv''\<rparr>
     = Inr (Some (2021, 3, 7))"
proof -
  let ?E = "sample_env [shop_rule, misc_rule]"
  let ?other = "\<lparr>name = ascii ''other.csv''\<rparr>"
  let ?n26 = "\<lparr>name = ascii ''n26.csv''\<rparr>"
  let ?fd = "\<lparr>delivered = (sample_header @ [10]) #
      [ascii ''2021-03-07,\"Acme Corp\",DE11,Payment,ref1,Shopping,-12.34,,,\<newline>'',
       ascii ''2021-03-05,Baker,,,ref2,Food,-3.50,,,\<newline>''], failure = None\<rparr>"
  have id_other: "identify ?E sample_importer ?other = Inr False"
    by (rule sample_identify_other)
  have other: "extract ?E sample_importer ?other = Inr []
     \<and> file_date ?E sample_importer ?other = Inr None"
    using extract_rows_in_order[of ?E sample_importer ?other] id_other by blast
  have id_n26: "identify ?E sample_importer ?n26 = Inr True"
    by (rule sample_identify[OF sample_lookup_n26])
  have op: "open_text ?E (name ?n26) (file_encoding sample_importer) = Inr ?fd"
    by (simp add: sample_open sample_lookup_n26 sample_file_def)
  have hyp: "init ?E (ascii ''DE00'') (ascii ''Assets:N26'') (ascii ''en'') (ascii ''utf-8'')
        sample_patterns = Inr sample_importer
      \<and> identify ?E sample_importer ?n26 = Inr True
      \<and> open_text ?E (name ?n26) (file_encoding sample_importer) = Inr ?fd
      \<and> DictReader (csv_reader ?E ?fd) = (n26_rows, None)
      \<and> (\<forall>line\<in>set n26_rows. well_formed_row ?E sample_importer line)"
    using sample_init id_n26 op n26_reader n26_wf by blast
  from extract_rows_in_order[of ?E sample_importer ?n26 "ascii ''DE00''" "ascii ''Assets:N26''"
      "ascii ''en''" "ascii ''utf-8''" sample_patterns ?fd n26_rows, THEN conjunct2, rule_format, OF hyp]
  obtain recs where r: "extract ?E sample_importer ?n26 = Inr recs"
    "length recs = length n26_rows"
    "\<forall>j<length n26_rows.
               meta (recs ! j) = \<lparr>filename = name ?n26, lineno = j\<rparr>
             \<and> strptime ?E (the (field_text sample_importer (n26_rows ! j) (ascii ''date'')))
                 = Inr (txn_date (recs ! j))
             \<and> payee (recs ! j) = Str (the (field_text sample_importer (n26_rows ! j) (ascii ''payee'')))"
    "file_date ?E sample_importer ?n26 =
             Inr (if n26_rows = [] then None else Some (Max (set (map txn_date recs))))"
    by blast
  have len: "length recs = 2" using r(2) by (simp add: n26_rows_def)
  then obtain t0 t1 where recs: "recs = [t0, t1]"
    by (cases recs; cases "tl recs") auto
  have j0: "(0::nat) < length n26_rows" and j1: "(1::nat) < length n26_rows"
    by (simp_all add: n26_rows_def)
  have m0: "lineno (meta t0) = 0" using r(3)[rule_format, OF j0] recs by simp
  have m1: "lineno (meta t1) = 1" using r(3)[rule_format, OF j1] recs by simp
  have "strptime ?E (the (field_text sample_importer (n26_rows ! 0) (ascii ''date''))) = Inr (2021, 3, 7)"
    by (simp add: n26_rows_def row_eval sample_env_def ref_env_def) (simp add: date_eval)
  then have d0: "txn_date t0 = (2021, 3, 7)" using r(3)[rule_format, OF j0] recs by simp
  have "strptime ?E (the (field_text sample_importer (n26_rows ! 1) (ascii ''date''))) = Inr (2021, 3, 5)"
    by (simp add: n26_rows_def row_eval sample_env_def ref_env_def) (simp add: date_eval)
  then have d1: "txn_date t1 = (2021, 3, 5)" using r(3)[rule_format, OF j1] recs by simp
  have fdt: "file_date ?E sample_importer ?n26 = Inr (Some (2021, 3, 7))"
    using r(4) recs d0 d1 by (simp add: n26_rows_def)
  show ?thesis using id_other other id_n26 r(1) recs m0 m1 d0 d1 fdt by simp
qed

section \<open>Identification failures and empty files\<close>

text \<open>
  Claim C5, as stated, fails: opening a file that does not exist raises \<open>OSError\<close>,
  which is not a \<open>ValueError\<close>; \<open>identify\<close> does not answer False, the exception
  reaches the caller.
\<close>

theorem identify_propagates_OSError:
  "identify (sample_env [shop_rule, misc_rule]) sample_importer \<lparr>name = ascii ''missing.csv''\<rparr>
     = Inl OSError
   \<and> identify (sample_env [shop_rule, misc_rule]) sample_importer
         \<lparr>name = ascii ''missing.csv''\<rparr> \<noteq> Inr False"
  by (simp add: identify_def sample_open) (simp add: sample_files_def ascii_def)

text \<open>
  Claim C5, amended. When opening the file or reading its first line raises an
  exception, \<open>identify\<close> answers False if the exception is a \<open>ValueError\<close> (a decoding
  failure is one), and lets every other exception reach the caller.
\<close>

theorem identify_catches_ValueError_only:
  "(open_text E (name file) (file_encoding self) = Inl e
    \<or> (\<exists>fd. open_text E (name file) (file_encoding self) = Inr fd \<and> readline fd = Inl e))
   \<longrightarrow> identify E self file = (if is_ValueError e then Inr False else Inl e)"
  by (auto simp: identify_def)

theorem identify_catches_ValueError_only_witness:
  "readline \<lparr>delivered = [], failure = Some UnicodeDecodeError\<rparr> = Inl UnicodeDecodeError
   \<and> identify (sample_env [shop_rule, misc_rule]) sample_importer \<lparr>name = ascii ''binary.pdf''\<rparr>
       = Inr False"
proof -
  let ?E = "sample_env [shop_rule, misc_rule]"
  let ?f = "\<lparr>name = ascii ''binary.pdf''\<rparr>"
  let ?fd = "\<lparr>delivered = [], failure = Some UnicodeDecodeError\<rparr>"
  have op: "open_text ?E (name ?f) (file_encoding sample_importer) = Inr ?fd"
    by (simp add: sample_open) (simp add: sample_files_def ascii_def)
  have rl: "readline ?fd = Inl UnicodeDecodeError"
    by (simp add: readline_def)
  have "identify ?E sample_importer ?f = (if is_ValueError UnicodeDecodeError then Inr False else Inl UnicodeDecodeError)"
    using identify_catches_ValueError_only[of ?E ?f sample_importer UnicodeDecodeError] op rl
    by blast
  then show ?thesis using rl by simp
qed

text \<open>
  Claim C10. On an identified file whose reader yields, after the header row, only
  empty rows and then ends, \<open>file_date\<close> returns \<open>None\<close>; it returns \<open>None\<close> on a file
  that is not identified as well, so the result alone does not tell the two apart.
\<close>

theorem file_date_None_without_rows:
  "(identify E self file = Inr True
      \<and> open_text E (name file) (file_encoding self) = Inr fd
      \<and> csv_reader E fd = (rows, None)
      \<and> (\<forall>r\<in>set (tl rows). r = []) \<longrightarrow>
      file_date E self file = Inr None)
   \<and> (identify E self file' = Inr False \<longrightarrow> file_date E self file' = Inr None)"
proof (intro conjI impI)
  assume a: "identify E self file = Inr True
      \<and> open_text E (name file) (file_encoding self) = Inr fd
      \<and> csv_reader E fd = (rows, None)
      \<and> (\<forall>r\<in>set (tl rows). r = [])"
  then have "filter (\<lambda>row. row \<noteq> []) (tl rows) = []"
    by (auto simp: filter_empty_conv)
  then have "DictReader (csv_reader E fd) = ([], None)"
    using a by (cases rows) (auto simp: DictReader_def)
  then show "file_date E self file = Inr None"
    using file_date_unfold[of E self "file" fd "[]" None] a by simp
next
  assume "identify E self file' = Inr False"
  then show "file_date E self file' = Inr None" by (rule identify_False_file_date)
qed

lemma sample_lookup_empty:
  "map_of sample_files (ascii ''empty.csv'') = Some (sample_file [])"
  by (simp add: sample_files_def ascii_def)

theorem file_date_None_without_rows_witness:
  "identify (sample_env [shop_rule, misc_rule]) sample_importer \<lparr>name = ascii ''empty.csv''\<rparr>
     = Inr True
   \<and> file_date (sample_env [shop_rule, misc_rule]) sample_importer \<lparr>name = ascii ''empty.csv''\<rparr>
     = Inr None
   \<and> identify (sample_env [shop_rule, misc_rule]) sample_importer \<lparr>name = ascii ''other.csv''\<rparr>
     = Inr False
   \<and> file_date (sample_env [shop_rule, misc_rule]) sample_importer \<lparr>name = ascii ''other.csv''\<rparr>
     = Inr None"
proof -
  let ?E = "sample_env [shop_rule, misc_rule]"
  let ?f = "\<lparr>name = ascii ''empty.csv''\<rparr>"
  let ?g = "\<lparr>name = ascii ''other.csv''\<rparr>"
  let ?fd = "\<lparr>delivered = [sample_header @ [10]], failure = None\<rparr>"
  let ?rows = "[map snd (translation_strings sample_importer)]"
  have id: "identify ?E sample_importer ?f = Inr True"
    by (rule sample_identify[OF sample_lookup_empty])
  have op: "open_text ?E (name ?f) (file_encoding sample_importer) = Inr ?fd"
    by (simp add: sample_open sample_lookup_empty sample_file_def)
  have rd: "csv_reader ?E ?fd = (?rows, None)"
    by (simp add: sample_reader)
  have idg: "identify ?E sample_importer ?g = Inr False"
    by (rule sample_identify_other)
  note t = file_date_None_without_rows[of ?E sample_importer ?f ?fd ?rows ?g]
  have "file_date ?E sample_importer ?f = Inr None" using t id op rd by simp
  moreover have "file_date ?E sample_importer ?g = Inr None" using t idg by blast
  ultimately show ?thesis using id idg by simp
qed

section \<open>Construction\<close>

lemma add_patterns_Inr:
  "add_patterns E acc ps (seen, pps) = Inr (seen', pps') \<Longrightarrow>
   seen' = seen \<union> set ps \<and> set ps \<inter> seen = {}
   \<and> pps' = pps \<union> {\<lparr>regex = r, pattern_account = acc\<rparr> | p r. p \<in> set ps \<and> re_compile E p = Inr r}"
proof (induction ps arbitrary: seen pps)
  case Nil
  then show ?case by simp
next
  case (Cons p ps)
  from Cons.prems obtain r where r: "p \<notin> seen" "re_compile E p = Inr r"
    "add_patterns E acc ps (insert p seen, insert \<lparr>regex = r, pattern_account = acc\<rparr> pps) = Inr (seen', pps')"
    by (auto split: if_splits sum.splits)
  from Cons.IH[OF r(3)] have ih: "seen' = insert p seen \<union> set ps"
    "set ps \<inter> insert p seen = {}"
    "pps' = insert \<lparr>regex = r, pattern_account = acc\<rparr> pps
        \<union> {\<lparr>regex = r, pattern_account = acc\<rparr> | p r. p \<in> set ps \<and> re_compile E p = Inr r}"
    by auto
  have "{\<lparr>regex = r', pattern_account = acc\<rparr> | p' r'. p' \<in> set (p # ps) \<and> re_compile E p' = Inr r'}
      = insert \<lparr>regex = r, pattern_account = acc\<rparr>
          {\<lparr>regex = r, pattern_account = acc\<rparr> | p r. p \<in> set ps \<and> re_compile E p = Inr r}"
    using r(2) by auto
  then show ?case using ih r(1) by auto
qed

lemma add_patterns_Inl:
  "add_patterns E acc ps st = Inl e \<Longrightarrow> \<forall>q\<in>set ps. \<not> isl (re_compile E q) \<Longrightarrow>
   e = AssertionError"
proof (induction ps arbitrary: st)
  case Nil
  then show ?case by simp
next
  case (Cons p ps)
  obtain seen pps where st: "st = (seen, pps)" by (cases st)
  from Cons.prems(2) obtain r where r: "re_compile E p = Inr r"
    by (cases "re_compile E p") auto
  show ?case
  proof (cases "p \<in> seen")
    case True
    then show ?thesis using Cons.prems(1) st by simp
  next
    case False
    then have "add_patterns E acc ps (insert p seen, insert \<lparr>regex = r, pattern_account = acc\<rparr> pps) = Inl e"
      using Cons.prems(1) st r by simp
    then show ?thesis using Cons.IH Cons.prems(2) by simp
  qed
qed

lemma add_accounts_Inr:
  "add_accounts E items (seen, pps) = Inr (seen', pps') \<Longrightarrow>
   seen' = seen \<union> (\<Union>ps\<in>snd ` set items. set ps)
   \<and> (\<forall>ps\<in>snd ` set items. set ps \<inter> seen = {})
   \<and> (\<forall>i j. i < j \<and> j < length items \<longrightarrow> set (snd (items ! i)) \<inter> set (snd (items ! j)) = {})
   \<and> pps' = pps \<union> {\<lparr>regex = r, pattern_account = a\<rparr> | a ps p r.
          (a, ps) \<in> set items \<and> p \<in> set ps \<and> re_compile E p = Inr r}"
proof (induction items arbitrary: seen pps)
  case Nil
  then show ?case by simp
next
  case (Cons item items)
  obtain a ps where item: "item = (a, ps)" by (cases item)
  from Cons.prems item obtain seen1 pps1 where s1:
    "add_patterns E a ps (seen, pps) = Inr (seen1, pps1)"
    "add_accounts E items (seen1, pps1) = Inr (seen', pps')"
    by (auto split: sum.splits)
  from add_patterns_Inr[OF s1(1)] have p1: "seen1 = seen \<union> set ps" "set ps \<inter> seen = {}"
    "pps1 = pps \<union> {\<lparr>regex = r, pattern_account = a\<rparr> | p r. p \<in> set ps \<and> re_compile E p = Inr r}"
    by auto
  from Cons.IH[OF s1(2)] have ih:
    "seen' = seen1 \<union> (\<Union>ps\<in>snd ` set items. set ps)"
    "\<forall>ps\<in>snd ` set items. set ps \<inter> seen1 = {}"
    "\<forall>i j. i < j \<and> j < length items \<longrightarrow> set (snd (items ! i)) \<inter> set (snd (items ! j)) = {}"
    "pps' = pps1 \<union> {\<lparr>regex = r, pattern_account = a\<rparr> | a ps p r.
          (a, ps) \<in> set items \<and> p \<in> set ps \<and> re_compile E p = Inr r}"
    by auto
  have c1: "seen' = seen \<union> (\<Union>ps\<in>snd ` set (item # items). set ps)"
    using ih(1) p1(1) item by auto
  have c2: "\<forall>ps\<in>snd ` set (item # items). set ps \<inter> seen = {}"
    using ih(2) p1(1,2) item by auto
  have c3: "\<forall>i j. i < j \<and> j < length (item # items) \<longrightarrow>
      set (snd ((item # items) ! i)) \<inter> set (snd ((item # items) ! j)) = {}"
  proof (intro allI impI)
    fix i j assume ij: "i < j \<and> j < length (item # items)"
    show "set (snd ((item # items) ! i)) \<inter> set (snd ((item # items) ! j)) = {}"
    proof (cases i)
      case 0
      from ij 0 obtain j' where j': "j = Suc j'" "j' < length items" by (cases j) auto
      then have "snd (items ! j') \<in> snd ` set items" by simp
      then have "set (snd (items ! j')) \<inter> seen1 = {}" using ih(2) by blast
      then show ?thesis using 0 j' item p1(1) by auto
    next
      case (Suc i')
      from ij Suc obtain j' where j': "j = Suc j'" "j' < length items" "i' < j'" by (cases j) auto
      then show ?thesis using ih(3) Suc by simp
    qed
  qed
  have c4: "pps' = pps \<union> {\<lparr>regex = r, pattern_account = a\<rparr> | a ps p r.
          (a, ps) \<in> set (item # items) \<and> p \<in> set ps \<and> re_compile E p = Inr r}"
    unfolding ih(4) p1(3) item by auto
  show ?case using c1 c2 c3 c4 by blast
qed

lemma add_accounts_Inl:
  "add_accounts E items st = Inl e \<Longrightarrow> \<forall>ps\<in>snd ` set items. \<forall>q\<in>set ps. \<not> isl (re_compile E q) \<Longrightarrow>
   e = AssertionError"
proof (induction items arbitrary: st)
  case Nil
  then show ?case by simp
next
  case (Cons item items)
  obtain a ps where item: "item = (a, ps)" by (cases item)
  show ?case
  proof (cases "add_patterns E a ps st")
    case (Inl e')
    then have "e' = e" using Cons.prems(1) item by simp
    moreover have "\<forall>q\<in>set ps. \<not> isl (re_compile E q)" using Cons.prems(2) item by auto
    ultimately show ?thesis using add_patterns_Inl[of E a ps st e] Inl by simp
  next
    case (Inr st')
    then have "add_accounts E items st' = Inl e" using Cons.prems(1) item by simp
    then show ?thesis using Cons.IH Cons.prems(2) by simp
  qed
qed

text \<open>
  Claim C7. Construction with a language that is not supported raises
  \<open>InvalidFormatError\<close>. Construction raises whenever one pattern string stands in the
  pattern lists of two different entries of \<open>account_patterns\<close>; when the language is
  supported and every pattern compiles, the exception is the \<open>AssertionError\<close> of the
  duplicate check. In each case no importer is returned.
\<close>

theorem init_rejects_bad_configuration:
  "(\<not> is_language_supported lang \<longrightarrow> init E ib acc lang enc aps = Inl InvalidFormatError)
   \<and> (i < j \<and> j < length aps \<and> p \<in> set (snd (aps ! i)) \<and> p \<in> set (snd (aps ! j)) \<longrightarrow>
        isl (init E ib acc lang enc aps))
   \<and> (i < j \<and> j < length aps \<and> p \<in> set (snd (aps ! i)) \<and> p \<in> set (snd (aps ! j))
        \<and> is_language_supported lang
        \<and> (\<forall>ps\<in>snd ` set aps. \<forall>q\<in>set ps. \<not> isl (re_compile E q)) \<longrightarrow>
        init E ib acc lang enc aps = Inl AssertionError)"
proof (intro conjI impI)
  assume "\<not> is_language_supported lang"
  then show "init E ib acc lang enc aps = Inl InvalidFormatError" by (simp add: init_def)
next
  assume d: "i < j \<and> j < length aps \<and> p \<in> set (snd (aps ! i)) \<and> p \<in> set (snd (aps ! j))"
  show "isl (init E ib acc lang enc aps)"
  proof (rule ccontr)
    assume "\<not> isl (init E ib acc lang enc aps)"
    then obtain self where "init E ib acc lang enc aps = Inr self"
      by (cases "init E ib acc lang enc aps") auto
    then obtain st where "add_accounts E aps ({}, {}) = Inr st"
      by (auto simp: init_def split: if_splits sum.splits)
    then have "add_accounts E aps ({}, {}) = Inr (fst st, snd st)" by simp
    from add_accounts_Inr[OF this] d show False by blast
  qed
next
  assume d: "i < j \<and> j < length aps \<and> p \<in> set (snd (aps ! i)) \<and> p \<in> set (snd (aps ! j))
        \<and> is_language_supported lang
        \<and> (\<forall>ps\<in>snd ` set aps. \<forall>q\<in>set ps. \<not> isl (re_compile E q))"
  obtain ts where ts: "translation_strings_for lang = Inr ts"
    using d by (auto simp: translation_strings_for_def is_language_supported_def)
  show "init E ib acc lang enc aps = Inl AssertionError"
  proof (cases "add_accounts E aps ({}, {})")
    case (Inl e)
    then have "e = AssertionError" using add_accounts_Inl[of E aps "({}, {})" e] d by blast
    then show ?thesis using Inl d ts by (simp add: init_def)
  next
    case (Inr st)
    then have "add_accounts E aps ({}, {}) = Inr (fst st, snd st)" by simp
    from add_accounts_Inr[OF this] d show ?thesis by blast
  qed
qed

theorem init_rejects_bad_configuration_witness:
  "init (sample_env []) (ascii ''DE00'') (ascii ''Assets:N26'') (ascii ''xx'') (ascii ''utf-8'')
     sample_patterns = Inl InvalidFormatError
   \<and> init (sample_env []) (ascii ''DE00'') (ascii ''Assets:N26'') (ascii ''en'') (ascii ''utf-8'')
     [(ascii ''Expenses:Shop'', [ascii ''^ACME'']), (ascii ''Expenses:Misc'', [ascii ''^ACME''])]
     = Inl AssertionError"
proof -
  let ?aps = "[(ascii ''Expenses:Shop'', [ascii ''^ACME'']), (ascii ''Expenses:Misc'', [ascii ''^ACME''])]"
  have 1: "\<not> is_language_supported (ascii ''xx'')"
    by (simp add: is_language_supported_def HEADER_FIELDS_def ascii_def)
  have 2: "(0::nat) < 1 \<and> 1 < length ?aps \<and> ascii ''^ACME'' \<in> set (snd (?aps ! 0))
        \<and> ascii ''^ACME'' \<in> set (snd (?aps ! 1))
        \<and> is_language_supported (ascii ''en'')
        \<and> (\<forall>ps\<in>snd ` set ?aps. \<forall>q\<in>set ps. \<not> isl (re_compile (sample_env []) q))"
    by (simp add: is_language_supported_def HEADER_FIELDS_def sample_env_def ref_env_def re_eval)
  have a: "init (sample_env []) (ascii ''DE00'') (ascii ''Assets:N26'') (ascii ''xx'') (ascii ''utf-8'')
     sample_patterns = Inl InvalidFormatError"
    using init_rejects_bad_configuration[of "ascii ''xx''" "sample_env []" "ascii ''DE00''"
        "ascii ''Assets:N26''" "ascii ''utf-8''" sample_patterns] 1 by blast
  have b: "init (sample_env []) (ascii ''DE00'') (ascii ''Assets:N26'') (ascii ''en'') (ascii ''utf-8'')
     ?aps = Inl AssertionError"
    using init_rejects_bad_configuration[of "ascii ''en''" "sample_env []" "ascii ''DE00''"
        "ascii ''Assets:N26''" "ascii ''utf-8''" ?aps 0 1 "ascii ''^ACME''"] 2 by blast
  show ?thesis using a b by simp
qed

section \<open>Payee patterns and postings\<close>

lemma init_patterns:
  assumes "init E ib acc lang enc aps = Inr self"
  shows "payee_patterns self = {\<lparr>regex = r, pattern_account = a\<rparr> | a ps p r.
          (a, ps) \<in> set aps \<and> p \<in> set ps \<and> re_compile E p = Inr r}"
proof -
  from assms obtain st where st: "add_accounts E aps ({}, {}) = Inr st" "payee_patterns self = snd st"
    by (auto simp: init_def split: if_splits sum.splits)
  from st(1) have "add_accounts E aps ({}, {}) = Inr (fst st, snd st)" by simp
  from add_accounts_Inr[OF this] st(2) show ?thesis by simp
qed

lemma extract_row_postings:
  assumes "extract_row E self file sa sp sr i line = Inr t"
  shows "\<exists>s amount m.
      line (Some sa) = Some (Str s) \<and> Decimal E s = Inr amount
    \<and> classify E line sp (set_iter E (payee_patterns self)) None = Inr m
    \<and> postings t =
        \<lparr>posting_account = account self, units = Some (amount, ascii ''EUR''),
         cost = None, price = None, posting_flag = None, posting_meta = None\<rparr>
        # (if truthy m then
             [\<lparr>posting_account = the m, units = None,
               cost = None, price = None, posting_flag = None, posting_meta = None\<rparr>]
           else [])"
proof -
  from assms obtain v where v: "line (Some sa) = Some v"
    by (cases "line (Some sa)") (auto simp: extract_row_def getitem_def)
  from assms v obtain s where s: "v = Str s"
    by (cases v) (auto simp: extract_row_def getitem_def)
  from assms v s obtain amount where am: "Decimal E s = Inr amount"
    by (cases "Decimal E s") (auto simp: extract_row_def getitem_def)
  from assms v s am obtain m where m:
    "classify E line sp (set_iter E (payee_patterns self)) None = Inr m"
    by (cases "classify E line sp (set_iter E (payee_patterns self)) None")
       (auto simp: extract_row_def getitem_def)
  have "postings t =
        \<lparr>posting_account = account self, units = Some (amount, ascii ''EUR''),
         cost = None, price = None, posting_flag = None, posting_meta = None\<rparr>
        # (if truthy m then
             [\<lparr>posting_account = the m, units = None,
               cost = None, price = None, posting_flag = None, posting_meta = None\<rparr>]
           else [])"
    using assms v s am m
    by (auto simp: extract_row_def getitem_def split: sum.splits)
  then show ?thesis using v s am m by blast
qed

lemma sample_translate:
  "translate sample_importer (ascii ''amount_eur'') = Inr (ascii ''Amount (EUR)'')"
  "translate sample_importer (ascii ''payee'') = Inr (ascii ''Payee'')"
  "translate sample_importer (ascii ''payment_reference'') = Inr (ascii ''Payment reference'')"
  "translate sample_importer (ascii ''date'') = Inr (ascii ''Date'')"
  by (simp_all add: translate_def sample_importer_def fields_en_def fld_def ascii_def)

lemma sample_open_n26:
  "open_text (sample_env order) (name \<lparr>name = ascii ''n26.csv''\<rparr>) (file_encoding sample_importer)
   = Inr \<lparr>delivered = (sample_header @ [10]) #
      [ascii ''2021-03-07,\"Acme Corp\",DE11,Payment,ref1,Shopping,-12.34,,,\<newline>'',
       ascii ''2021-03-05,Baker,,,ref2,Food,-3.50,,,\<newline>''], failure = None\<rparr>"
  by (simp add: sample_open sample_lookup_n26 sample_file_def)

lemma sample_extract_n26:
  "extract (sample_env order) sample_importer \<lparr>name = ascii ''n26.csv''\<rparr> =
     extract_loop (sample_env order) sample_importer \<lparr>name = ascii ''n26.csv''\<rparr>
       (ascii ''Amount (EUR)'') (ascii ''Payee'') (ascii ''Payment reference'') 0 n26_rows"
  using extract_unfold[OF sample_identify[OF sample_lookup_n26] sample_translate(1,2,3)
      sample_open_n26 n26_reader]
  by (simp split: sum.splits)

lemmas sample_row_eval = extract_row_def getitem_def parse_date_def truthy_def FLAG_def
  n26_rows_def row_eval sample_env_def ref_env_def shop_rule_def misc_rule_def

lemma sample_postings_shop_last:
  "map (map posting_account \<circ> postings)
     (projr (extract (sample_env [misc_rule, shop_rule]) sample_importer \<lparr>name = ascii ''n26.csv''\<rparr>))
   = [[ascii ''Assets:N26'', ascii ''Expenses:Shop''], [ascii ''Assets:N26'']]"
  unfolding sample_extract_n26
  by (simp add: sample_row_eval re_eval dec_eval date_eval)

lemma sample_postings_misc_last:
  "map (map posting_account \<circ> postings)
     (projr (extract (sample_env [shop_rule, misc_rule]) sample_importer \<lparr>name = ascii ''n26.csv''\<rparr>))
   = [[ascii ''Assets:N26'', ascii ''Expenses:Misc''], [ascii ''Assets:N26'']]"
  unfolding sample_extract_n26
  by (simp add: sample_row_eval re_eval dec_eval date_eval)

lemma extract_loop_mem:
  "extract_loop E self file sa sp sr i rows = Inr recs \<Longrightarrow> t \<in> set recs \<Longrightarrow>
   \<exists>j line. line \<in> set rows \<and> extract_row E self file sa sp sr j line = Inr t"
proof (induction rows arbitrary: i recs)
  case Nil
  then show ?case by simp
next
  case (Cons line rows)
  from Cons.prems(1) obtain t0 ts where s:
    "extract_row E self file sa sp sr i line = Inr t0"
    "extract_loop E self file sa sp sr (Suc i) rows = Inr ts" "recs = t0 # ts"
    by (auto split: sum.splits)
  show ?case
  proof (cases "t = t0")
    case True
    then show ?thesis using s(1) by auto
  next
    case False
    then have "t \<in> set ts" using Cons.prems(2) s(3) by simp
    from Cons.IH[OF s(2) this] show ?thesis by auto
  qed
qed

lemma extract_mem:
  assumes "extract E self file = Inr recs" "t \<in> set recs"
  shows "\<exists>fd sa sp sr j line.
      open_text E (name file) (file_encoding self) = Inr fd
    \<and> translate self (ascii ''amount_eur'') = Inr sa
    \<and> translate self (ascii ''payee'') = Inr sp
    \<and> translate self (ascii ''payment_reference'') = Inr sr
    \<and> line \<in> set (fst (DictReader (csv_reader E fd)))
    \<and> extract_row E self file sa sp sr j line = Inr t"
proof -
  from assms have id: "identify E self file = Inr True"
    by (cases "identify E self file") (auto simp: extract_def split: if_splits)
  from assms(1) id obtain sa where sa: "translate self (ascii ''amount_eur'') = Inr sa"
    by (cases "translate self (ascii ''amount_eur'')") (auto simp: extract_def)
  from assms(1) id sa obtain sp where sp: "translate self (ascii ''payee'') = Inr sp"
    by (cases "translate self (ascii ''payee'')") (auto simp: extract_def)
  from assms(1) id sa sp obtain sr where sr: "translate self (ascii ''payment_reference'') = Inr sr"
    by (cases "translate self (ascii ''payment_reference'')") (auto simp: extract_def)
  from assms(1) id sa sp sr obtain fd where fd: "open_text E (name file) (file_encoding self) = Inr fd"
    by (cases "open_text E (name file) (file_encoding self)") (auto simp: extract_def)
  obtain rows err where rd: "DictReader (csv_reader E fd) = (rows, err)"
    by (cases "DictReader (csv_reader E fd)")
  from extract_unfold[OF id sa sp sr fd rd] assms(1)
  have "extract_loop E self file sa sp sr 0 rows = Inr recs"
    by (auto split: sum.splits option.splits)
  from extract_loop_mem[OF this assms(2)] obtain j line where
    "line \<in> set rows" "extract_row E self file sa sp sr j line = Inr t" by blast
  then show ?thesis using fd sa sp sr rd by auto
qed

text \<open>
  Claim C3. Every record that \<open>extract\<close> returns comes from a row of the file; its
  first posting is on the account the importer was constructed with and carries the
  \<open>Decimal\<close> of the row's amount column in EUR; a second posting is present exactly when
  the loop over the payee patterns ends with a non-empty account, it is on that account
  and has no amount; there is no third posting.
\<close>

theorem postings_shape:
  "init E ib acc lang enc aps = Inr self \<and> extract E self file = Inr recs \<and> t \<in> set recs \<longrightarrow>
     (\<exists>fd line sa sp s amount m.
         open_text E (name file) (file_encoding self) = Inr fd
       \<and> line \<in> set (fst (DictReader (csv_reader E fd)))
       \<and> translate self (ascii ''amount_eur'') = Inr sa
       \<and> line (Some sa) = Some (Str s) \<and> Decimal E s = Inr amount
       \<and> translate self (ascii ''payee'') = Inr sp
       \<and> classify E line sp (set_iter E (payee_patterns self)) None = Inr m
       \<and> postings t =
           \<lparr>posting_account = acc, units = Some (amount, ascii ''EUR''),
            cost = None, price = None, posting_flag = None, posting_meta = None\<rparr>
           # (if truthy m then
                [\<lparr>posting_account = the m, units = None,
                  cost = None, price = None, posting_flag = None, posting_meta = None\<rparr>]
              else []))
     \<and> 1 \<le> length (postings t) \<and> length (postings t) \<le> 2"
proof (intro impI)
  assume a: "init E ib acc lang enc aps = Inr self \<and> extract E self file = Inr recs \<and> t \<in> set recs"
  then have acc: "account self = acc" using init_facts(3) by blast
  from a extract_mem[of E self "file" recs t] obtain fd sa sp sr j line where m:
    "open_text E (name file) (file_encoding self) = Inr fd"
    "translate self (ascii ''amount_eur'') = Inr sa"
    "translate self (ascii ''payee'') = Inr sp"
    "line \<in> set (fst (DictReader (csv_reader E fd)))"
    "extract_row E self file sa sp sr j line = Inr t"
    by blast
  from extract_row_postings[OF m(5)] obtain s amount mt where p:
    "line (Some sa) = Some (Str s)" "Decimal E s = Inr amount"
    "classify E line sp (set_iter E (payee_patterns self)) None = Inr mt"
    "postings t =
        \<lparr>posting_account = account self, units = Some (amount, ascii ''EUR''),
         cost = None, price = None, posting_flag = None, posting_meta = None\<rparr>
        # (if truthy mt then
             [\<lparr>posting_account = the mt, units = None,
               cost = None, price = None, posting_flag = None, posting_meta = None\<rparr>]
           else [])"
    by blast
  have len: "1 \<le> length (postings t) \<and> length (postings t) \<le> 2" using p(4) by simp
  show "(\<exists>fd line sa sp s amount m.
         open_text E (name file) (file_encoding self) = Inr fd
       \<and> line \<in> set (fst (DictReader (csv_reader E fd)))
       \<and> translate self (ascii ''amount_eur'') = Inr sa
       \<and> line (Some sa) = Some (Str s) \<and> Decimal E s = Inr amount
       \<and> translate self (ascii ''payee'') = Inr sp
       \<and> classify E line sp (set_iter E (payee_patterns self)) None = Inr m
       \<and> postings t =
           \<lparr>posting_account = acc, units = Some (amount, ascii ''EUR''),
            cost = None, price = None, posting_flag = None, posting_meta = None\<rparr>
           # (if truthy m then
                [\<lparr>posting_account = the m, units = None,
                  cost = None, price = None, posting_flag = None, posting_meta = None\<rparr>]
              else []))
     \<and> 1 \<le> length (postings t) \<and> length (postings t) \<le> 2"
    using m(1,2,3,4) p acc len by blast
qed

lemma sample_extract_Inr:
  "\<exists>recs. extract (sample_env order) sample_importer \<lparr>name = ascii ''n26.csv''\<rparr> = Inr recs
     \<and> length recs = 2"
  using extract_loop_wf[OF sample_translate(1,2,3) n26_wf, of order "\<lparr>name = ascii ''n26.csv''\<rparr>" 0]
  unfolding sample_extract_n26 by (auto simp: n26_rows_def)

theorem postings_shape_witness:
  "\<not> isl (extract (sample_env [shop_rule, misc_rule]) sample_importer \<lparr>name = ascii ''n26.csv''\<rparr>)
   \<and> map (map posting_account \<circ> postings)
       (projr (extract (sample_env [shop_rule, misc_rule]) sample_importer
                 \<lparr>name = ascii ''n26.csv''\<rparr>))
     = [[ascii ''Assets:N26'', ascii ''Expenses:Misc''], [ascii ''Assets:N26'']]
   \<and> map (map units \<circ> postings)
       (projr (extract (sample_env [shop_rule, misc_rule]) sample_importer
                 \<lparr>name = ascii ''n26.csv''\<rparr>))
     = [[Some (Finite True 1234 (- 2), ascii ''EUR''), None],
        [Some (Finite True 350 (- 2), ascii ''EUR'')]]
   \<and> length (postings (hd (projr (extract (sample_env [shop_rule, misc_rule]) sample_importer
                 \<lparr>name = ascii ''n26.csv''\<rparr>)))) \<le> 2"
proof -
  let ?E = "sample_env [shop_rule, misc_rule]"
  let ?f = "\<lparr>name = ascii ''n26.csv''\<rparr>"
  from sample_extract_Inr[of "[shop_rule, misc_rule]"] obtain recs where
    r: "extract ?E sample_importer ?f = Inr recs" "length recs = 2" by blast
  then have mem: "hd recs \<in> set recs" by (cases recs) auto
  have hyp: "init ?E (ascii ''DE00'') (ascii ''Assets:N26'') (ascii ''en'') (ascii ''utf-8'')
        sample_patterns = Inr sample_importer
      \<and> extract ?E sample_importer ?f = Inr recs \<and> hd recs \<in> set recs"
    using sample_init r(1) mem by blast
  from postings_shape[of ?E "ascii ''DE00''" "ascii ''Assets:N26''" "ascii ''en''" "ascii ''utf-8''"
      sample_patterns sample_importer ?f recs "hd recs", rule_format, OF hyp]
  have len: "length (postings (hd recs)) \<le> 2" by blast
  have u: "map (map units \<circ> postings) (projr (extract ?E sample_importer ?f))
     = [[Some (Finite True 1234 (- 2), ascii ''EUR''), None],
        [Some (Finite True 350 (- 2), ascii ''EUR'')]]"
    unfolding sample_extract_n26
    by (simp add: sample_row_eval re_eval dec_eval date_eval)
  show ?thesis using r(1) len u sample_postings_misc_last by simp
qed

text \<open>
  Claim C2. The rule set of a constructed importer holds one rule per configured
  pattern: the pattern compiled by \<open>re.compile(pattern, IGNORECASE)\<close> and its account. A
  rule matches a payee text when \<open>match\<close> of its compiled pattern succeeds on the text
  (a match at the beginning of the text). The loop yields the account of the last
  matching rule in iteration order, and no account when no rule matches; then the record
  of the row has exactly one posting.
\<close>

theorem classify_last_match_wins:
  "init E ib acc lang enc aps = Inr self
   \<and> set (set_iter E (payee_patterns self)) = payee_patterns self
   \<and> line (Some sp) = Some (Str p) \<longrightarrow>
     payee_patterns self = {\<lparr>regex = r, pattern_account = a\<rparr> | a ps q r.
          (a, ps) \<in> set aps \<and> q \<in> set ps \<and> re_compile E q = Inr r}
   \<and> classify E line sp (set_iter E (payee_patterns self)) None =
        Inr (case filter (\<lambda>r. re_match E (regex r) p) (set_iter E (payee_patterns self)) of
               [] \<Rightarrow> None
             | r # rs \<Rightarrow> Some (pattern_account (last (r # rs))))
   \<and> ((\<forall>r\<in>payee_patterns self. \<not> re_match E (regex r) p) \<longrightarrow>
          classify E line sp (set_iter E (payee_patterns self)) None = Inr None
        \<and> (\<forall>t sa sr i. extract_row E self file sa sp sr i line = Inr t \<longrightarrow>
              length (postings t) = 1))"
proof (intro impI conjI)
  assume a: "init E ib acc lang enc aps = Inr self
   \<and> set (set_iter E (payee_patterns self)) = payee_patterns self
   \<and> line (Some sp) = Some (Str p)"
  then have p: "line (Some sp) = Some (Str p)" by blast
  show "payee_patterns self = {\<lparr>regex = r, pattern_account = a\<rparr> | a ps q r.
          (a, ps) \<in> set aps \<and> q \<in> set ps \<and> re_compile E q = Inr r}"
    using a init_patterns[of E ib acc lang enc aps self] by blast
  show c: "classify E line sp (set_iter E (payee_patterns self)) None =
        Inr (case filter (\<lambda>r. re_match E (regex r) p) (set_iter E (payee_patterns self)) of
               [] \<Rightarrow> None
             | r # rs \<Rightarrow> Some (pattern_account (last (r # rs))))"
    by (rule classify_filter[where line=line and sp=sp and p=p, OF p])
  assume none: "\<forall>r\<in>payee_patterns self. \<not> re_match E (regex r) p"
  then have "filter (\<lambda>r. re_match E (regex r) p) (set_iter E (payee_patterns self)) = []"
    using a by (auto simp: filter_empty_conv)
  then show n: "classify E line sp (set_iter E (payee_patterns self)) None = Inr None"
    using c by simp
  show "\<forall>t sa sr i. extract_row E self file sa sp sr i line = Inr t \<longrightarrow> length (postings t) = 1"
  proof (intro allI impI)
    fix t sa sr i assume "extract_row E self file sa sp sr i line = Inr t"
    from extract_row_postings[OF this] n show "length (postings t) = 1"
      by (auto simp: truthy_def)
  qed
qed

theorem classify_last_match_wins_witness:
  "set (set_iter (sample_env [shop_rule, misc_rule]) (payee_patterns sample_importer))
     = payee_patterns sample_importer
   \<and> (n26_rows ! 0) (Some (ascii ''Payee'')) = Some (Str (ascii ''Acme Corp''))
   \<and> classify (sample_env [shop_rule, misc_rule]) (n26_rows ! 0) (ascii ''Payee'')
        (set_iter (sample_env [shop_rule, misc_rule]) (payee_patterns sample_importer)) None
      = Inr (Some (ascii ''Expenses:Misc''))
   \<and> (n26_rows ! 1) (Some (ascii ''Payee'')) = Some (Str (ascii ''Baker''))
   \<and> classify (sample_env [shop_rule, misc_rule]) (n26_rows ! 1) (ascii ''Payee'')
        (set_iter (sample_env [shop_rule, misc_rule]) (payee_patterns sample_importer)) None
      = Inr None"
proof -
  let ?E = "sample_env [shop_rule, misc_rule]"
  let ?S = "payee_patterns sample_importer"
  have it: "set_iter ?E ?S = [shop_rule, misc_rule]"
    by (simp add: sample_env_def ref_env_def sample_importer_def)
  have v: "set (set_iter ?E ?S) = ?S"
    unfolding it by (simp add: sample_importer_def)
  have p0: "(n26_rows ! 0) (Some (ascii ''Payee'')) = Some (Str (ascii ''Acme Corp''))"
    by (simp add: n26_rows_def row_eval)
  have p1: "(n26_rows ! 1) (Some (ascii ''Payee'')) = Some (Str (ascii ''Baker''))"
    by (simp add: n26_rows_def row_eval)
  note t0 = classify_last_match_wins[of ?E "ascii ''DE00''" "ascii ''Assets:N26''" "ascii ''en''"
      "ascii ''utf-8''" sample_patterns sample_importer "n26_rows ! 0" "ascii ''Payee''"
      "ascii ''Acme Corp''", rule_format, OF conjI[OF sample_init conjI[OF v p0]]]
  note t1 = classify_last_match_wins[of ?E "ascii ''DE00''" "ascii ''Assets:N26''" "ascii ''en''"
      "ascii ''utf-8''" sample_patterns sample_importer "n26_rows ! 1" "ascii ''Payee''"
      "ascii ''Baker''", rule_format, OF conjI[OF sample_init conjI[OF v p1]]]
  have c0: "classify ?E (n26_rows ! 0) (ascii ''Payee'') (set_iter ?E ?S) None
      = Inr (Some (ascii ''Expenses:Misc''))"
    using t0[THEN conjunct2, THEN conjunct1] unfolding it
    by (simp add: sample_env_def ref_env_def shop_rule_def misc_rule_def re_eval)
  have no: "\<forall>r\<in>?S. \<not> re_match ?E (regex r) (ascii ''Baker'')"
    by (simp add: sample_importer_def sample_env_def ref_env_def shop_rule_def misc_rule_def re_eval)
  have c1: "classify ?E (n26_rows ! 1) (ascii ''Payee'') (set_iter ?E ?S) None = Inr None"
    using t1[THEN conjunct2, THEN conjunct2] no by blast
  show ?thesis using v p0 c0 p1 c1 by simp
qed

section \<open>Determinism and the iteration order of the pattern set\<close>

lemma classify_set_iter:
  "classify (E\<lparr>set_iter := it\<rparr>) line sp rules m = classify E line sp rules m"
  by (induction rules arbitrary: m) (auto split: sum.splits pyval.splits)

lemma classify_no_text:
  "\<forall>p. line (Some sp) \<noteq> Some (Str p) \<Longrightarrow>
   classify E line sp rules m =
     (if rules = [] then Inr m
      else if line (Some sp) = None then Inl KeyError else Inl TypeError)"
  by (cases rules; cases "line (Some sp)"; cases "the (line (Some sp))")
     (auto simp: getitem_def)

lemma classify_order_independent:
  assumes s: "set l1 = set l2"
    and agree: "\<forall>p. \<forall>r1\<in>set l1. \<forall>r2\<in>set l1.
       re_match E (regex r1) p \<and> re_match E (regex r2) p \<longrightarrow>
       pattern_account r1 = pattern_account r2"
  shows "classify E line sp l1 None = classify E line sp l2 None"
proof (cases "\<exists>p. line (Some sp) = Some (Str p)")
  case False
  then have n: "\<forall>p. line (Some sp) \<noteq> Some (Str p)" by blast
  have "(l1 = []) = (l2 = [])" using s by auto
  then show ?thesis
    by (simp add: classify_no_text[where line=line and sp=sp, OF n])
next
  case True
  then obtain p where p: "line (Some sp) = Some (Str p)" by blast
  let ?f1 = "filter (\<lambda>r. re_match E (regex r) p) l1"
  let ?f2 = "filter (\<lambda>r. re_match E (regex r) p) l2"
  have fs: "set ?f1 = set ?f2" using s by auto
  show ?thesis
  proof (cases "?f1 = []")
    case True
    then have "?f2 = []" using fs by (metis set_empty)
    then show ?thesis
      using True classify_filter[where line=line and sp=sp and p=p, OF p, of E] by simp
  next
    case False
    then have ne2: "?f2 \<noteq> []" using fs by (metis set_empty)
    have "last ?f1 \<in> set ?f1" using False by (rule last_in_set)
    then have a1: "last ?f1 \<in> set l1" "re_match E (regex (last ?f1)) p" by auto
    have "last ?f2 \<in> set ?f2" using ne2 by (rule last_in_set)
    then have a2: "last ?f2 \<in> set l1" "re_match E (regex (last ?f2)) p" using s by auto
    have eq: "pattern_account (last ?f1) = pattern_account (last ?f2)"
      using agree a1 a2 by blast
    have c1: "classify E line sp l1 None = Inr (Some (pattern_account (last ?f1)))"
      using classify_filter[where line=line and sp=sp and p=p and rules=l1, OF p, of E None] False
      by (cases ?f1) auto
    have c2: "classify E line sp l2 None = Inr (Some (pattern_account (last ?f2)))"
      using classify_filter[where line=line and sp=sp and p=p and rules=l2, OF p, of E None] ne2
      by (cases ?f2) auto
    show ?thesis using c1 c2 eq by simp
  qed
qed

lemma parse_date_set_iter:
  "parse_date (E\<lparr>set_iter := it\<rparr>) self line k = parse_date E self line k"
  by (simp add: parse_date_def cong: sum.case_cong pyval.case_cong)

lemma identify_set_iter:
  "identify (E\<lparr>set_iter := it\<rparr>) self file = identify E self file"
  by (simp add: identify_def)

lemma file_date_loop_set_iter:
  "file_date_loop (E\<lparr>set_iter := it\<rparr>) self rows d = file_date_loop E self rows d"
  by (induction rows arbitrary: d) (auto simp: parse_date_set_iter split: sum.splits)

lemma file_date_set_iter:
  "file_date (E\<lparr>set_iter := it\<rparr>) self file = file_date E self file"
  by (simp add: file_date_def identify_set_iter file_date_loop_set_iter
      cong: sum.case_cong if_cong)

lemma extract_row_order:
  assumes "classify E line sp (it (payee_patterns self)) None
         = classify E line sp (set_iter E (payee_patterns self)) None"
  shows "extract_row (E\<lparr>set_iter := it\<rparr>) self file sa sp sr i line
       = extract_row E self file sa sp sr i line"
  using assms by (simp add: extract_row_def classify_set_iter parse_date_set_iter
      cong: sum.case_cong pyval.case_cong)

lemma extract_loop_order:
  assumes "\<forall>line. classify E line sp (it (payee_patterns self)) None
         = classify E line sp (set_iter E (payee_patterns self)) None"
  shows "extract_loop (E\<lparr>set_iter := it\<rparr>) self file sa sp sr i rows
       = extract_loop E self file sa sp sr i rows"
  using assms by (induction rows arbitrary: i)
    (simp_all add: extract_row_order cong: sum.case_cong)

text \<open>
  Claim C9, amended. Between two runs that differ only in the order in which sets are
  iterated, \<open>identify\<close> and \<open>file_date\<close> return the same result, and \<open>extract\<close> does so
  whenever all patterns that match one payee text name the same account (in particular
  when at most one pattern matches each payee).
\<close>

theorem results_independent_of_iteration_order:
  "identify (E\<lparr>set_iter := it\<rparr>) self file = identify E self file
   \<and> file_date (E\<lparr>set_iter := it\<rparr>) self file = file_date E self file
   \<and> (set (it (payee_patterns self)) = payee_patterns self
      \<and> set (set_iter E (payee_patterns self)) = payee_patterns self
      \<and> (\<forall>p. \<forall>r1\<in>payee_patterns self. \<forall>r2\<in>payee_patterns self.
            re_match E (regex r1) p \<and> re_match E (regex r2) p \<longrightarrow>
            pattern_account r1 = pattern_account r2) \<longrightarrow>
      extract (E\<lparr>set_iter := it\<rparr>) self file = extract E self file)"
proof (intro conjI impI)
  show "identify (E\<lparr>set_iter := it\<rparr>) self file = identify E self file"
    by (rule identify_set_iter)
  show "file_date (E\<lparr>set_iter := it\<rparr>) self file = file_date E self file"
    by (rule file_date_set_iter)
  assume a: "set (it (payee_patterns self)) = payee_patterns self
      \<and> set (set_iter E (payee_patterns self)) = payee_patterns self
      \<and> (\<forall>p. \<forall>r1\<in>payee_patterns self. \<forall>r2\<in>payee_patterns self.
            re_match E (regex r1) p \<and> re_match E (regex r2) p \<longrightarrow>
            pattern_account r1 = pattern_account r2)"
  have c: "\<forall>sp line. classify E line sp (it (payee_patterns self)) None
         = classify E line sp (set_iter E (payee_patterns self)) None"
  proof (intro allI)
    fix sp line
    show "classify E line sp (it (payee_patterns self)) None
         = classify E line sp (set_iter E (payee_patterns self)) None"
      by (rule classify_order_independent) (use a in auto)
  qed
  have l: "\<And>sa sp sr rows. extract_loop (E\<lparr>set_iter := it\<rparr>) self file sa sp sr 0 rows
       = extract_loop E self file sa sp sr 0 rows"
    by (rule extract_loop_order) (use c in blast)
  show "extract (E\<lparr>set_iter := it\<rparr>) self file = extract E self file"
    by (simp add: extract_def identify_set_iter l cong: sum.case_cong if_cong)
qed

text \<open>
  Claim C9, as stated, fails. Two runs on the same file content with the same
  configuration may iterate over the set of payee patterns in different orders (both
  orders below enumerate the importer's set, and the two environments differ in nothing
  else); when two patterns with different accounts match one payee, \<open>extract\<close> returns
  different counter-accounts in the two runs.
\<close>

theorem extract_depends_on_iteration_order:
  "set (set_iter (sample_env [shop_rule, misc_rule]) (payee_patterns sample_importer))
     = payee_patterns sample_importer
   \<and> set (set_iter (sample_env [misc_rule, shop_rule]) (payee_patterns sample_importer))
     = payee_patterns sample_importer
   \<and> sample_env [misc_rule, shop_rule]
     = (sample_env [shop_rule, misc_rule])
         \<lparr>set_iter := set_iter (sample_env [misc_rule, shop_rule])\<rparr>
   \<and> extract (sample_env [shop_rule, misc_rule]) sample_importer \<lparr>name = ascii ''n26.csv''\<rparr>
     \<noteq> extract (sample_env [misc_rule, shop_rule]) sample_importer \<lparr>name = ascii ''n26.csv''\<rparr>"
proof -
  have 1: "set (set_iter (sample_env [shop_rule, misc_rule]) (payee_patterns sample_importer))
     = payee_patterns sample_importer"
    by (simp add: sample_env_def ref_env_def sample_importer_def)
  have 2: "set (set_iter (sample_env [misc_rule, shop_rule]) (payee_patterns sample_importer))
     = payee_patterns sample_importer"
    by (auto simp: sample_env_def ref_env_def sample_importer_def)
  have 3: "sample_env [misc_rule, shop_rule]
     = (sample_env [shop_rule, misc_rule])
         \<lparr>set_iter := set_iter (sample_env [misc_rule, shop_rule])\<rparr>"
    by (simp add: sample_env_def ref_env_def)
  have 4: "extract (sample_env [shop_rule, misc_rule]) sample_importer \<lparr>name = ascii ''n26.csv''\<rparr>
     \<noteq> extract (sample_env [misc_rule, shop_rule]) sample_importer \<lparr>name = ascii ''n26.csv''\<rparr>"
  proof
    assume "extract (sample_env [shop_rule, misc_rule]) sample_importer \<lparr>name = ascii ''n26.csv''\<rparr>
     = extract (sample_env [misc_rule, shop_rule]) sample_importer \<lparr>name = ascii ''n26.csv''\<rparr>"
    then have "[[ascii ''Assets:N26'', ascii ''Expenses:Misc''], [ascii ''Assets:N26'']]
       = [[ascii ''Assets:N26'', ascii ''Expenses:Shop''], [ascii ''Assets:N26'']]"
      using sample_postings_misc_last sample_postings_shop_last by simp
    then show False by (simp add: ascii_def)
  qed
  show ?thesis using 1 2 3 4 by blast
qed

lemma acme_baker_disjoint:
  "\<not> (ref_re_match (ascii ''acme'') p \<and> ref_re_match (ascii ''baker'') p)"
  by (cases p) (auto simp: ref_re_match_def ascii_def)

theorem results_independent_of_iteration_order_witness:
  "set (set_iter (sample_env [food_rule, shop_rule]) (payee_patterns food_importer))
     = payee_patterns food_importer
   \<and> set (set_iter (sample_env [shop_rule, food_rule]) (payee_patterns food_importer))
     = payee_patterns food_importer
   \<and> identify (sample_env [food_rule, shop_rule]) food_importer \<lparr>name = ascii ''n26.csv''\<rparr>
     = identify (sample_env [shop_rule, food_rule]) food_importer \<lparr>name = ascii ''n26.csv''\<rparr>
   \<and> file_date (sample_env [food_rule, shop_rule]) food_importer \<lparr>name = ascii ''n26.csv''\<rparr>
     = file_date (sample_env [shop_rule, food_rule]) food_importer \<lparr>name = ascii ''n26.csv''\<rparr>
   \<and> extract (sample_env [food_rule, shop_rule]) food_importer \<lparr>name = ascii ''n26.csv''\<rparr>
     = extract (sample_env [shop_rule, food_rule]) food_importer \<lparr>name = ascii ''n26.csv''\<rparr>"
proof -
  let ?E = "sample_env [shop_rule, food_rule]"
  let ?it = "set_iter (sample_env [food_rule, shop_rule])"
  let ?f = "\<lparr>name = ascii ''n26.csv''\<rparr>"
  have e: "sample_env [food_rule, shop_rule] = ?E\<lparr>set_iter := ?it\<rparr>"
    by (simp add: sample_env_def ref_env_def)
  have 1: "set (?it (payee_patterns food_importer)) = payee_patterns food_importer"
    by (auto simp: sample_env_def ref_env_def food_importer_def)
  have 2: "set (set_iter ?E (payee_patterns food_importer)) = payee_patterns food_importer"
    by (auto simp: sample_env_def ref_env_def food_importer_def)
  have 3: "\<forall>p. \<forall>r1\<in>payee_patterns food_importer. \<forall>r2\<in>payee_patterns food_importer.
            re_match ?E (regex r1) p \<and> re_match ?E (regex r2) p \<longrightarrow>
            pattern_account r1 = pattern_account r2"
    using acme_baker_disjoint
    by (auto simp: food_importer_def sample_env_def ref_env_def shop_rule_def food_rule_def)
  note t = results_independent_of_iteration_order[of ?it ?E food_importer ?f]
  have "extract (?E\<lparr>set_iter := ?it\<rparr>) food_importer ?f = extract ?E food_importer ?f"
    using t 1 2 3 by blast
  moreover have "identify (?E\<lparr>set_iter := ?it\<rparr>) food_importer ?f = identify ?E food_importer ?f"
    using t by blast
  moreover have "file_date (?E\<lparr>set_iter := ?it\<rparr>) food_importer ?f = file_date ?E food_importer ?f"
    using t by blast
  ultimately show ?thesis using 1 2 unfolding e[symmetric] by simp
qed

section \<open>Rows that do not parse\<close>

lemma parse_date_fail:
  "\<forall>s. field_text self line (ascii ''date'') = Some s \<longrightarrow> isl (strptime E s) \<Longrightarrow>
   isl (parse_date E self line (ascii ''date''))"
  by (auto simp: parse_date_def field_text_def getitem_def
      split: sum.splits option.splits pyval.splits)

lemma file_date_loop_fail:
  "line \<in> set rows \<Longrightarrow> isl (parse_date E self line (ascii ''date'')) \<Longrightarrow>
   isl (file_date_loop E self rows d)"
proof (induction rows arbitrary: d)
  case Nil
  then show ?case by simp
next
  case (Cons r rows)
  show ?case
  proof (cases "parse_date E self r (ascii ''date'')")
    case (Inl e)
    then show ?thesis by simp
  next
    case (Inr dt)
    then have "line \<noteq> r" using Cons.prems(2) by auto
    then have "line \<in> set rows" using Cons.prems(1) by simp
    from Cons.IH[OF this Cons.prems(2)] show ?thesis using Inr by simp
  qed
qed

lemma extract_row_fail_date:
  "isl (parse_date E self line (ascii ''date'')) \<Longrightarrow>
   isl (extract_row E self file sa sp sr i line)"
  by (auto simp: extract_row_def split: sum.splits pyval.splits)

lemma extract_row_fail_amount:
  "translate self (ascii ''amount_eur'') = Inr sa \<Longrightarrow>
   \<forall>s. field_text self line (ascii ''amount_eur'') = Some s \<longrightarrow> isl (Decimal E s) \<Longrightarrow>
   isl (extract_row E self file sa sp sr i line)"
  by (auto simp: extract_row_def field_text_def getitem_def
      split: sum.splits option.splits pyval.splits)

lemma extract_loop_fail:
  "line \<in> set rows \<Longrightarrow> \<forall>i. isl (extract_row E self file sa sp sr i line) \<Longrightarrow>
   isl (extract_loop E self file sa sp sr i rows)"
proof (induction rows arbitrary: i)
  case Nil
  then show ?case by simp
next
  case (Cons r rows)
  show ?case
  proof (cases "extract_row E self file sa sp sr i r")
    case (Inl e)
    then show ?thesis by simp
  next
    case (Inr t)
    then have "line \<noteq> r" using Cons.prems(2) by (metis sum.disc(2))
    then have "line \<in> set rows" using Cons.prems(1) by simp
    from Cons.IH[OF this Cons.prems(2), of "Suc i"] show ?thesis
      using Inr by (auto split: sum.splits)
  qed
qed

lemma extract_fail:
  assumes id: "identify E self file = Inr True"
    and init: "init E ib acc lang enc aps = Inr self"
    and fd: "open_text E (name file) (file_encoding self) = Inr fd"
    and mem: "line \<in> set (fst (DictReader (csv_reader E fd)))"
    and bad: "\<And>sa sp sr i. translate self (ascii ''amount_eur'') = Inr sa \<Longrightarrow>
       isl (extract_row E self file sa sp sr i line)"
  shows "isl (extract E self file)"
proof -
  from translate_keys[OF init] obtain sa sp sr where k:
    "translate self (ascii ''amount_eur'') = Inr sa"
    "translate self (ascii ''payee'') = Inr sp"
    "translate self (ascii ''payment_reference'') = Inr sr"
    by blast
  obtain rows err where rd: "DictReader (csv_reader E fd) = (rows, err)"
    by (cases "DictReader (csv_reader E fd)")
  have "line \<in> set rows" using mem rd by simp
  then have "isl (extract_loop E self file sa sp sr 0 rows)"
    by (rule extract_loop_fail) (use bad[OF k(1)] in blast)
  then show ?thesis
    unfolding extract_unfold[OF id k fd rd] by (auto split: sum.splits)
qed

text \<open>
  Claim C6, amended. For a row of an identified file: when the date column holds no
  text that \<open>strptime\<close> accepts, \<open>extract\<close> and \<open>file_date\<close> raise; when the amount column
  holds no text that \<open>Decimal\<close> accepts, \<open>extract\<close> raises; so it does on a row with
  the amount \<open>12,34\<close>.
\<close>

theorem rejected_fields_are_fatal:
  "identify E self file = Inr True
   \<and> init E ib acc lang enc aps = Inr self
   \<and> open_text E (name file) (file_encoding self) = Inr fd
   \<and> line \<in> set (fst (DictReader (csv_reader E fd))) \<longrightarrow>
     ((\<forall>s. field_text self line (ascii ''date'') = Some s \<longrightarrow> isl (strptime E s)) \<longrightarrow>
        isl (extract E self file) \<and> isl (file_date E self file))
   \<and> ((\<forall>s. field_text self line (ascii ''amount_eur'') = Some s \<longrightarrow> isl (Decimal E s)) \<longrightarrow>
        isl (extract E self file))"
proof (intro impI conjI)
  assume a: "identify E self file = Inr True
   \<and> init E ib acc lang enc aps = Inr self
   \<and> open_text E (name file) (file_encoding self) = Inr fd
   \<and> line \<in> set (fst (DictReader (csv_reader E fd)))"
  then have id: "identify E self file = Inr True"
    and init: "init E ib acc lang enc aps = Inr self"
    and fd: "open_text E (name file) (file_encoding self) = Inr fd"
    and mem: "line \<in> set (fst (DictReader (csv_reader E fd)))" by blast+
  {
    assume d: "\<forall>s. field_text self line (ascii ''date'') = Some s \<longrightarrow> isl (strptime E s)"
    have pd: "isl (parse_date E self line (ascii ''date''))" by (rule parse_date_fail[OF d])
    show "isl (extract E self file)"
      by (rule extract_fail[OF id init fd mem]) (rule extract_row_fail_date[OF pd])
    obtain rows err where rd: "DictReader (csv_reader E fd) = (rows, err)"
      by (cases "DictReader (csv_reader E fd)")
    have "line \<in> set rows" using mem rd by simp
    then have "isl (file_date_loop E self rows None)"
      by (rule file_date_loop_fail[OF _ pd])
    then show "isl (file_date E self file)"
      unfolding file_date_unfold[OF id fd rd] by (auto split: sum.splits)
  }
  {
    assume am: "\<forall>s. field_text self line (ascii ''amount_eur'') = Some s \<longrightarrow> isl (Decimal E s)"
    show "isl (extract E self file)"
      by (rule extract_fail[OF id init fd mem]) (rule extract_row_fail_amount[OF _ am])
  }
qed

lemma sample_open_file:
  "map_of sample_files n = Some (sample_file data) \<Longrightarrow>
   open_text (sample_env order) (name \<lparr>name = n\<rparr>) (file_encoding sample_importer)
     = Inr \<lparr>delivered = (sample_header @ [10]) # data, failure = None\<rparr>"
  by (simp add: sample_open sample_file_def)

lemma sample_lookup_unpadded:
  "map_of sample_files (ascii ''unpadded.csv'')
     = Some (sample_file [ascii ''2021-3-5,Baker,,,ref,Food,-3.50,,,\<newline>''])"
  by (simp add: sample_files_def ascii_def)

lemma sample_lookup_comma:
  "map_of sample_files (ascii ''comma.csv'')
     = Some (sample_file [ascii ''2021-03-05,Baker,,,ref,Food,\"12,34\",,,\<newline>''])"
  by (simp add: sample_files_def ascii_def)

lemma sample_lookup_baddate:
  "map_of sample_files (ascii ''baddate.csv'')
     = Some (sample_file [ascii ''05.03.2021,Baker,,,ref,Food,-3.50,,,\<newline>''])"
  by (simp add: sample_files_def ascii_def)

lemma unpadded_reader:
  "DictReader (csv_reader (sample_env order) \<lparr>delivered = (sample_header @ [10]) #
      [ascii ''2021-3-5,Baker,,,ref,Food,-3.50,,,\<newline>''], failure = None\<rparr>)
   = ([unpadded_row], None)"
  unfolding sample_reader unpadded_row_def
  by (simp add: DictReader_def csv_eval)

lemma comma_reader:
  "DictReader (csv_reader (sample_env order) \<lparr>delivered = (sample_header @ [10]) #
      [ascii ''2021-03-05,Baker,,,ref,Food,\"12,34\",,,\<newline>''], failure = None\<rparr>)
   = ([comma_row], None)"
  unfolding sample_reader comma_row_def
  by (simp add: DictReader_def csv_eval)

lemma baddate_reader:
  "DictReader (csv_reader (sample_env order) \<lparr>delivered = (sample_header @ [10]) #
      [ascii ''05.03.2021,Baker,,,ref,Food,-3.50,,,\<newline>''], failure = None\<rparr>)
   = ([baddate_row], None)"
  unfolding sample_reader baddate_row_def
  by (simp add: DictReader_def csv_eval)

text \<open>
  Claim C6, as stated, fails for the date: \<open>strptime\<close> with \<open>%Y-%m-%d\<close> accepts a month and
  a day without the leading zero. The identified file \<open>unpadded.csv\<close> has one row whose
  date field is \<open>2021-3-5\<close>, which is not of the form \<open>YYYY-MM-DD\<close>; \<open>extract\<close> and
  \<open>file_date\<close> return results and raise nothing.
\<close>

theorem unpadded_date_is_accepted:
  "identify (sample_env [shop_rule, misc_rule]) sample_importer \<lparr>name = ascii ''unpadded.csv''\<rparr>
     = Inr True
   \<and> fst (DictReader (csv_reader (sample_env [shop_rule, misc_rule])
        (projr (open_text (sample_env [shop_rule, misc_rule]) (ascii ''unpadded.csv'')
                  (file_encoding sample_importer))))) = [unpadded_row]
   \<and> field_text sample_importer unpadded_row (ascii ''date'') = Some (ascii ''2021-3-5'')
   \<and> \<not> exact_ymd (ascii ''2021-3-5'')
   \<and> strptime (sample_env [shop_rule, misc_rule]) (ascii ''2021-3-5'') = Inr (2021, 3, 5)
   \<and> \<not> isl (extract (sample_env [shop_rule, misc_rule]) sample_importer
              \<lparr>name = ascii ''unpadded.csv''\<rparr>)
   \<and> map txn_date (projr (extract (sample_env [shop_rule, misc_rule]) sample_importer
              \<lparr>name = ascii ''unpadded.csv''\<rparr>)) = [(2021, 3, 5)]
   \<and> file_date (sample_env [shop_rule, misc_rule]) sample_importer
        \<lparr>name = ascii ''unpadded.csv''\<rparr> = Inr (Some (2021, 3, 5))"
proof -
  let ?E = "sample_env [shop_rule, misc_rule]"
  let ?f = "\<lparr>name = ascii ''unpadded.csv''\<rparr>"
  note op = sample_open_file[OF sample_lookup_unpadded, of "[shop_rule, misc_rule]"]
  have id: "identify ?E sample_importer ?f = Inr True"
    by (rule sample_identify[OF sample_lookup_unpadded])
  have rows: "fst (DictReader (csv_reader ?E
        (projr (open_text ?E (ascii ''unpadded.csv'') (file_encoding sample_importer)))))
      = [unpadded_row]"
    using op by (simp add: unpadded_reader)
  have ft: "field_text sample_importer unpadded_row (ascii ''date'') = Some (ascii ''2021-3-5'')"
    by (simp add: unpadded_row_def row_eval)
  have ne: "\<not> exact_ymd (ascii ''2021-3-5'')"
    by (simp add: exact_ymd_def ascii_def)
  have sp: "strptime ?E (ascii ''2021-3-5'') = Inr (2021, 3, 5)"
    by (simp add: sample_env_def ref_env_def date_eval)
  have ex: "extract ?E sample_importer ?f =
     extract_loop ?E sample_importer ?f (ascii ''Amount (EUR)'') (ascii ''Payee'')
       (ascii ''Payment reference'') 0 [unpadded_row]"
    using extract_unfold[OF id sample_translate(1,2,3) op unpadded_reader]
    by (simp split: sum.splits)
  have ev: "\<not> isl (extract ?E sample_importer ?f)
     \<and> map txn_date (projr (extract ?E sample_importer ?f)) = [(2021, 3, 5)]"
    unfolding ex
    by (simp add: extract_row_def getitem_def parse_date_def truthy_def FLAG_def
        unpadded_row_def row_eval sample_env_def ref_env_def shop_rule_def misc_rule_def
        re_eval dec_eval date_eval)
  have fdt: "file_date ?E sample_importer ?f = Inr (Some (2021, 3, 5))"
    unfolding file_date_unfold[OF id op unpadded_reader]
    by (simp add: parse_date_def getitem_def unpadded_row_def row_eval sample_env_def
        ref_env_def date_eval)
  show ?thesis using id rows ft ne sp ev fdt by blast
qed

theorem rejected_fields_are_fatal_witness:
  "field_text sample_importer comma_row (ascii ''amount_eur'') = Some (ascii ''12,34'')
   \<and> Decimal (sample_env [shop_rule, misc_rule]) (ascii ''12,34'') = Inl InvalidOperation
   \<and> isl (extract (sample_env [shop_rule, misc_rule]) sample_importer
             \<lparr>name = ascii ''comma.csv''\<rparr>)
   \<and> field_text sample_importer baddate_row (ascii ''date'') = Some (ascii ''05.03.2021'')
   \<and> strptime (sample_env [shop_rule, misc_rule]) (ascii ''05.03.2021'') = Inl ValueError
   \<and> isl (extract (sample_env [shop_rule, misc_rule]) sample_importer
             \<lparr>name = ascii ''baddate.csv''\<rparr>)
   \<and> isl (file_date (sample_env [shop_rule, misc_rule]) sample_importer
             \<lparr>name = ascii ''baddate.csv''\<rparr>)"
proof -
  let ?E = "sample_env [shop_rule, misc_rule]"
  let ?c = "\<lparr>name = ascii ''comma.csv''\<rparr>"
  let ?b = "\<lparr>name = ascii ''baddate.csv''\<rparr>"
  note opc = sample_open_file[OF sample_lookup_comma, of "[shop_rule, misc_rule]"]
  note opb = sample_open_file[OF sample_lookup_baddate, of "[shop_rule, misc_rule]"]
  have ftc: "field_text sample_importer comma_row (ascii ''amount_eur'') = Some (ascii ''12,34'')"
    by (simp add: comma_row_def row_eval)
  have dc: "Decimal ?E (ascii ''12,34'') = Inl InvalidOperation"
    by (simp add: sample_env_def ref_env_def dec_eval)
  have ftb: "field_text sample_importer baddate_row (ascii ''date'') = Some (ascii ''05.03.2021'')"
    by (simp add: baddate_row_def row_eval)
  have db: "strptime ?E (ascii ''05.03.2021'') = Inl ValueError"
    by (simp add: sample_env_def ref_env_def date_eval)
  have hc: "identify ?E sample_importer ?c = Inr True
   \<and> init ?E (ascii ''DE00'') (ascii ''Assets:N26'') (ascii ''en'') (ascii ''utf-8'')
        sample_patterns = Inr sample_importer
   \<and> open_text ?E (name ?c) (file_encoding sample_importer)
        = Inr \<lparr>delivered = (sample_header @ [10]) #
            [ascii ''2021-03-05,Baker,,,ref,Food,\"12,34\",,,\<newline>''], failure = None\<rparr>
   \<and> comma_row \<in> set (fst (DictReader (csv_reader ?E \<lparr>delivered = (sample_header @ [10]) #
            [ascii ''2021-03-05,Baker,,,ref,Food,\"12,34\",,,\<newline>''], failure = None\<rparr>)))"
    using sample_identify[OF sample_lookup_comma] sample_init opc by (simp add: comma_reader)
  have hb: "identify ?E sample_importer ?b = Inr True
   \<and> init ?E (ascii ''DE00'') (ascii ''Assets:N26'') (ascii ''en'') (ascii ''utf-8'')
        sample_patterns = Inr sample_importer
   \<and> open_text ?E (name ?b) (file_encoding sample_importer)
        = Inr \<lparr>delivered = (sample_header @ [10]) #
            [ascii ''05.03.2021,Baker,,,ref,Food,-3.50,,,\<newline>''], failure = None\<rparr>
   \<and> baddate_row \<in> set (fst (DictReader (csv_reader ?E \<lparr>delivered = (sample_header @ [10]) #
            [ascii ''05.03.2021,Baker,,,ref,Food,-3.50,,,\<newline>''], failure = None\<rparr>)))"
    using sample_identify[OF sample_lookup_baddate] sample_init opb by (simp add: baddate_reader)
  have c: "isl (extract ?E sample_importer ?c)"
    using rejected_fields_are_fatal[rule_format, OF hc, THEN conjunct2] ftc dc by simp
  have b: "isl (extract ?E sample_importer ?b) \<and> isl (file_date ?E sample_importer ?b)"
    using rejected_fields_are_fatal[rule_format, OF hb, THEN conjunct1] ftb db by simp
  show ?thesis using ftc dc c ftb db b by blast
qed

end
